theory Spec2Isabelle
  imports
    Main
    "HOL-Library.Char_ord"
    "HOL-Library.List_Lexorder"
    "HOL-Library.Product_Lexorder"
    "HOL-Library.Sublist"
    "HOL-Library.Multiset"
begin

section \<open>Text, cells and dates\<close>

text \<open>
  The script works on pandas cells. A textual cell is either missing (\<open>NaN\<close>, \<open>pd.NA\<close>,
  \<open>None\<close>) or a Python string; it is modelled as a \<open>string option\<close>. A character of the
  model is a Unicode code point below 256 (ASCII and the Latin-1 supplement), so a text of
  the model is a Python string over these code points (the letter e with an acute accent is
  \<open>CHR 0xE9\<close>, the no-break space \<open>CHR 0xA0\<close>); a text with any other character is not a
  value of the model. The character classes are Python's on these code points:
  \<open>isspace\<close> is \<open>str.isspace\<close>, which \<open>str.strip()\<close> and \<open>\\s\<close> use (the ASCII white space,
  the separators U+001C to U+001F, the next-line control U+0085 and the no-break space
  U+00A0); \<open>isdigit\<close> is \<open>\\d\<close>, the decimal digits, of which there are only the ASCII
  ones below 256; \<open>isword\<close> is \<open>\\w\<close>, the underscore and every alphanumeric character
  (ASCII letters and digits, the Latin-1 letters, the superscript digits and the vulgar
  fractions); \<open>lower\<close> is \<open>str.lower\<close>.
\<close>

datatype py_error = ValueError | TypeError | IndexError | KeyError

definition isspace :: "char \<Rightarrow> bool" where
  "isspace c = (let n = (of_char c :: nat) in
     (9 \<le> n \<and> n \<le> 13) \<or> (28 \<le> n \<and> n \<le> 32) \<or> n = 133 \<or> n = 160)"

definition isdigit :: "char \<Rightarrow> bool" where
  "isdigit c = (let n = (of_char c :: nat) in 48 \<le> n \<and> n \<le> 57)"

definition isword :: "char \<Rightarrow> bool" where
  "isword c = (let n = (of_char c :: nat) in
     (48 \<le> n \<and> n \<le> 57) \<or> (65 \<le> n \<and> n \<le> 90) \<or> (97 \<le> n \<and> n \<le> 122) \<or> n = 95
     \<or> n \<in> set [170, 178, 179, 181, 185, 186, 188, 189, 190]
     \<or> (192 \<le> n \<and> n \<le> 214) \<or> (216 \<le> n \<and> n \<le> 246) \<or> (248 \<le> n \<and> n \<le> 255))"

definition lower_char :: "char \<Rightarrow> char" where
  "lower_char c = (let n = (of_char c :: nat) in
     if (65 \<le> n \<and> n \<le> 90) \<or> (192 \<le> n \<and> n \<le> 214) \<or> (216 \<le> n \<and> n \<le> 222)
     then char_of (n + 32) else c)"

definition lower :: "string \<Rightarrow> string" where
  "lower s = map lower_char s"

definition lstrip :: "string \<Rightarrow> string" where
  "lstrip s = dropWhile isspace s"

definition rstrip :: "string \<Rightarrow> string" where
  "rstrip s = rev (dropWhile isspace (rev s))"

definition strip :: "string \<Rightarrow> string" where
  "strip s = rstrip (lstrip s)"

definition rstrip_chars :: "string \<Rightarrow> string \<Rightarrow> string" where
  "rstrip_chars cs s = rev (dropWhile (\<lambda>c. c \<in> set cs) (rev s))"

definition int_of_digits :: "string \<Rightarrow> int" where
  "int_of_digits s = foldl (\<lambda>acc c. 10 * acc + (int (of_char c) - 48)) 0 s"

record timestamp =
  ts_year :: int
  ts_month :: int
  ts_day :: int

definition is_leap :: "int \<Rightarrow> bool" where
  "is_leap y = (y mod 4 = 0 \<and> (y mod 100 \<noteq> 0 \<or> y mod 400 = 0))"

definition days_in_month :: "int \<Rightarrow> int \<Rightarrow> int" where
  "days_in_month y m =
     (if m = 2 then (if is_leap y then 29 else 28)
      else if m = 4 \<or> m = 6 \<or> m = 9 \<or> m = 11 then 30 else 31)"

definition valid_date :: "int \<Rightarrow> int \<Rightarrow> int \<Rightarrow> bool" where
  "valid_date y m d = (1 \<le> y \<and> y \<le> 9999 \<and> 1 \<le> m \<and> m \<le> 12 \<and> 1 \<le> d \<and> d \<le> days_in_month y m)"

text \<open>
  \<open>pd.Timestamp(year=y, month=m, day=d)\<close> raises \<open>ValueError\<close> on a date that is not on the
  calendar. The nanosecond range of a pandas timestamp (years 1677 to 2262) is not modelled:
  the parser below only keeps years between 1900 and the year of the clock.
\<close>

definition Timestamp :: "int \<Rightarrow> int \<Rightarrow> int \<Rightarrow> py_error + timestamp" where
  "Timestamp y m d =
     (if valid_date y m d then Inr \<lparr>ts_year = y, ts_month = m, ts_day = d\<rparr> else Inl ValueError)"

text \<open>
  \<open>pd.to_datetime(val, format="%d/%m/%Y")\<close>: the whole text has to be a day, a slash, a month,
  a slash and a year. The day directive reads one or two digits that make a number from 1 to
  31 without a bare zero (or a blank and one digit from 1 to 9), the month directive one or
  two digits that make a number from 1 to 12, the year directive exactly four digits. The
  empty text and the texts pandas reads as "not a time" give \<open>NaT\<close> (here \<open>None\<close>) without
  an error. The texts \<open>now\<close> and \<open>today\<close> are not held against the format: pandas answers
  them with the timestamp of the clock, \<open>now\<close> below (its time of day is not kept).
  Anything else that does not fit, or is not a calendar date, is a \<open>ValueError\<close>.
\<close>

definition day_directive :: "string \<Rightarrow> bool" where
  "day_directive d =
     ((length d = 1 \<or> length d = 2) \<and> list_all isdigit d \<and> 1 \<le> int_of_digits d \<and> int_of_digits d \<le> 31
      \<or> (length d = 2 \<and> hd d = CHR '' '' \<and> isdigit (d ! 1) \<and> d ! 1 \<noteq> CHR ''0''))"

definition month_directive :: "string \<Rightarrow> bool" where
  "month_directive m =
     ((length m = 1 \<or> length m = 2) \<and> list_all isdigit m \<and> 1 \<le> int_of_digits m \<and> int_of_digits m \<le> 12)"

definition year_directive :: "string \<Rightarrow> bool" where
  "year_directive y = (length y = 4 \<and> list_all isdigit y)"

definition strptime_dmy :: "string \<Rightarrow> timestamp option" where
  "strptime_dmy val =
     (let d = takeWhile (\<lambda>c. c \<noteq> CHR ''/'') val;
          r1 = drop (Suc (length d)) val;
          m = takeWhile (\<lambda>c. c \<noteq> CHR ''/'') r1;
          y = drop (Suc (length m)) r1
      in if length d < length val \<and> length m < length r1
            \<and> day_directive d \<and> month_directive m \<and> year_directive y
         then (case Timestamp (int_of_digits y) (int_of_digits m) (int_of_digits (lstrip d)) of
                 Inl e \<Rightarrow> None | Inr t \<Rightarrow> Some t)
         else None)"

definition nat_strings :: "string list" where
  "nat_strings = [''NaT'', ''nat'', ''NAT'', ''nan'', ''NaN'', ''NAN'']"

definition to_datetime :: "timestamp \<Rightarrow> string \<Rightarrow> py_error + timestamp option" where
  "to_datetime now val =
     (if val = [] \<or> val \<in> set nat_strings then Inr None
      else if val = ''now'' \<or> val = ''today'' then Inr (Some now)
      else (case strptime_dmy val of None \<Rightarrow> Inl ValueError | Some t \<Rightarrow> Inr (Some t)))"

section \<open>Regular expressions\<close>

text \<open>
  The patterns of the script are run by a backtracking matcher, as Python's \<open>re\<close> does. A
  matcher takes the groups captured so far and the text that is left, and returns every way
  to go on, the one Python tries first at the head of the list. \<open>re.match\<close> anchors the
  pattern at the start of the text and takes the first way that reaches the end of the
  pattern.
\<close>

type_synonym mstate = "string list \<times> string"
type_synonym matcher = "mstate \<Rightarrow> mstate list"

definition lit :: "string \<Rightarrow> matcher" where
  "lit w = (\<lambda>(gs, s). if prefix w s then [(gs, drop (length w) s)] else [])"

text \<open>
  A repeated character class (\<open>\\d{1,2}\<close>, \<open>\\s*\<close>, \<open>.*?\<close>): between \<open>lo\<close> and \<open>hi\<close>
  characters of the class, the longest run first when greedy, the shortest first when lazy.
\<close>

definition rep_cls :: "bool \<Rightarrow> nat \<Rightarrow> nat option \<Rightarrow> (char \<Rightarrow> bool) \<Rightarrow> matcher" where
  "rep_cls greedy lo hi P =
     (\<lambda>(gs, s).
        let n = length (takeWhile P s);
            m = (case hi of None \<Rightarrow> n | Some h \<Rightarrow> min h n);
            ks = [lo..<Suc m]
        in map (\<lambda>k. (gs, drop k s)) (if greedy then rev ks else ks))"

definition seq_m :: "matcher \<Rightarrow> matcher \<Rightarrow> matcher" where
  "seq_m a b = (\<lambda>st. concat (map b (a st)))"

definition seqs :: "matcher list \<Rightarrow> matcher" where
  "seqs ms = foldr seq_m ms (\<lambda>st. [st])"

text \<open>A capturing group appends the text its body consumed to the list of groups.\<close>

definition grp :: "matcher \<Rightarrow> matcher" where
  "grp m = (\<lambda>(gs, s). map (\<lambda>(gs', s'). (gs' @ [take (length s - length s') s], s')) (m (gs, s)))"

text \<open>
  A greedy star over a body: one more round of the body first, no further round last. A
  round that consumes nothing ends the repetition, as in Python.
\<close>

function star_m :: "matcher \<Rightarrow> matcher" where
  "star_m body st =
     concat (map (star_m body) (filter (\<lambda>st'. length (snd st') < length (snd st)) (body st))) @ [st]"
  by pat_completeness auto
termination
  by (relation "measure (\<lambda>(body, st). length (snd st))") auto

declare star_m.simps [simp del]

text \<open>\<open>$\<close> without the multi-line flag: the end of the text, or just before a final line feed.\<close>

definition eol :: matcher where
  "eol = (\<lambda>(gs, s). if s = [] \<or> s = [CHR 0x0A] then [(gs, s)] else [])"

definition re_match :: "matcher \<Rightarrow> string \<Rightarrow> string list option" where
  "re_match p s = (case p ([], s) of [] \<Rightarrow> None | (gs, r) # rest \<Rightarrow> Some gs)"

definition not_newline :: "char \<Rightarrow> bool" where
  "not_newline c = (c \<noteq> CHR 0x0A)"

section \<open>Date of birth\<close>

text \<open>\<open>^00/(\\d{1,2})/(\\d{4})$\<close> and \<open>^00/00/(\\d{4})$\<close>.\<close>

definition pattern_00_mm :: matcher where
  "pattern_00_mm =
     seqs [lit ''00/'', grp (rep_cls True 1 (Some 2) isdigit), lit ''/'',
           grp (rep_cls True 4 (Some 4) isdigit), eol]"

definition pattern_00_00 :: matcher where
  "pattern_00_00 = seqs [lit ''00/00/'', grp (rep_cls True 4 (Some 4) isdigit), eol]"

text \<open>
  The state of \<open>parse_dob_comprehensive\<close> is the pair \<open>(parsed_date, precision)\<close>; each of
  its three blocks is a function on that pair. \<open>current_year\<close> is the year of the clock
  when the function reads it (\<open>pd.Timestamp.now().year\<close>), \<open>now\<close> the timestamp of the clock
  when \<open>pd.to_datetime\<close> reads it. An exception that a block does not catch ends the
  function (\<open>Inl\<close>).
\<close>

type_synonym dob_state = "timestamp option \<times> string"

definition dob_try_full :: "int \<Rightarrow> timestamp \<Rightarrow> string \<Rightarrow> dob_state \<Rightarrow> py_error + dob_state" where
  "dob_try_full current_year now dob_str st =
     (if \<not> prefix ''00/'' dob_str then
        (case to_datetime now dob_str of
           Inl e \<Rightarrow> (if e = ValueError \<or> e = TypeError then Inr st else Inl e)
         | Inr None \<Rightarrow> Inr st
         | Inr (Some temp_date) \<Rightarrow>
             (if 1900 \<le> ts_year temp_date \<and> ts_year temp_date \<le> current_year
              then Inr (Some temp_date, ''Full Date'') else Inr st))
      else Inr st)"

definition dob_try_month :: "int \<Rightarrow> string \<Rightarrow> dob_state \<Rightarrow> py_error + dob_state" where
  "dob_try_month current_year dob_str st =
     (if fst st = None then
        (case re_match pattern_00_mm dob_str of
           None \<Rightarrow> Inr st
         | Some gs \<Rightarrow>
             (let month = int_of_digits (gs ! 0); year = int_of_digits (gs ! 1) in
              if 1 \<le> month \<and> month \<le> 12 \<and> 1900 \<le> year \<and> year \<le> current_year then
                (case Timestamp year month 1 of
                   Inl e \<Rightarrow> (if e = ValueError then Inr st else Inl e)
                 | Inr t \<Rightarrow> Inr (Some t, ''Month/Year Only''))
              else Inr st))
      else Inr st)"

definition dob_try_year :: "int \<Rightarrow> string \<Rightarrow> dob_state \<Rightarrow> py_error + dob_state" where
  "dob_try_year current_year dob_str st =
     (if fst st = None then
        (case re_match pattern_00_00 dob_str of
           None \<Rightarrow> Inr st
         | Some gs \<Rightarrow>
             (let year = int_of_digits (gs ! 0) in
              if 1900 \<le> year \<and> year \<le> current_year then
                (case Timestamp year 1 1 of
                   Inl e \<Rightarrow> (if e = ValueError then Inr st else Inl e)
                 | Inr t \<Rightarrow> Inr (Some t, ''Year Only''))
              else Inr st))
      else Inr st)"

definition bind_err :: "'e + 'a \<Rightarrow> ('a \<Rightarrow> 'e + 'b) \<Rightarrow> 'e + 'b" where
  "bind_err r f = (case r of Inl e \<Rightarrow> Inl e | Inr v \<Rightarrow> f v)"

definition parse_dob_comprehensive :: "int \<Rightarrow> timestamp \<Rightarrow> string option \<Rightarrow> py_error + dob_state" where
  "parse_dob_comprehensive current_year now dob =
     (case dob of
        None \<Rightarrow> Inr (None, ''Missing'')
      | Some raw \<Rightarrow>
          if lower (strip raw) = ''nan'' then Inr (None, ''Missing'')
          else
            (let dob_str = strip raw in
             bind_err (dob_try_full current_year now dob_str (None, ''Unknown/Failed'')) (\<lambda>st1.
             bind_err (dob_try_month current_year dob_str st1) (\<lambda>st2.
             bind_err (dob_try_year current_year dob_str st2) (\<lambda>st3.
             Inr (if fst st3 = None \<and> snd st3 = ''Unknown/Failed''
                  then (fst st3, ''Unknown/Failed'') else st3))))))"

text \<open>
  What the three blocks keep true of \<open>(parsed_date, precision)\<close>: no date under the
  starting label, or a date under the label of the block that found it.
\<close>

definition dob_inv :: "dob_state \<Rightarrow> bool" where
  "dob_inv st = ((fst st = None \<and> snd st = ''Unknown/Failed'') \<or>
     (fst st \<noteq> None \<and> (snd st = ''Full Date'' \<or> snd st = ''Month/Year Only'' \<or> snd st = ''Year Only'')))"

text \<open>
  The rules of the parser in the words of the specification, to compare the code with: a
  text that parses as day/month/year and does not start with the zero day, the form
  \<open>00/MM/YYYY\<close>, and the form \<open>00/00/YYYY\<close>, each with its range check.
\<close>

definition is_00_mm_yyyy :: "string \<Rightarrow> string \<Rightarrow> string \<Rightarrow> bool" where
  "is_00_mm_yyyy t mm yyyy =
     (t = ''00/'' @ mm @ ''/'' @ yyyy \<and> (length mm = 1 \<or> length mm = 2) \<and> list_all isdigit mm
      \<and> length yyyy = 4 \<and> list_all isdigit yyyy)"

definition is_00_00_yyyy :: "string \<Rightarrow> string \<Rightarrow> bool" where
  "is_00_00_yyyy t yyyy = (t = ''00/00/'' @ yyyy \<and> length yyyy = 4 \<and> list_all isdigit yyyy)"

definition full_date_rule :: "int \<Rightarrow> string \<Rightarrow> timestamp \<Rightarrow> bool" where
  "full_date_rule current_year t d =
     (\<not> prefix ''00/'' t \<and> strptime_dmy t = Some d \<and> 1900 \<le> ts_year d \<and> ts_year d \<le> current_year)"

definition month_year_rule :: "int \<Rightarrow> string \<Rightarrow> string \<Rightarrow> string \<Rightarrow> bool" where
  "month_year_rule current_year t mm yyyy =
     (is_00_mm_yyyy t mm yyyy \<and> 1 \<le> int_of_digits mm \<and> int_of_digits mm \<le> 12
      \<and> 1900 \<le> int_of_digits yyyy \<and> int_of_digits yyyy \<le> current_year)"

definition year_rule :: "int \<Rightarrow> string \<Rightarrow> string \<Rightarrow> bool" where
  "year_rule current_year t yyyy =
     (is_00_00_yyyy t yyyy \<and> 1900 \<le> int_of_digits yyyy \<and> int_of_digits yyyy \<le> current_year)"

section \<open>Aggregating one field of a group\<close>

text \<open>
  A column of a group is the list of its cells, in row order. \<open>dropna\<close> removes the missing
  cells; \<open>unique\<close> keeps the first occurrence of every value, in order of appearance, as
  pandas does.
\<close>

definition dropna :: "'a option list \<Rightarrow> 'a list" where
  "dropna series = [v. Some v \<leftarrow> series]"

definition unique :: "'a list \<Rightarrow> 'a list" where
  "unique vals = rev (remdups (rev vals))"

definition null_sentinels :: "string list" where
  "null_sentinels = [''nan'', ''none'', ''<na>'', ''nat'']"

text \<open>
  \<open>get_unique_sorted_list\<close>. \<open>str\<close> is Python's \<open>str\<close> on the values of the column (the
  identity on text, the decimal notation on the integer years). No step of the body raises,
  so the \<open>except\<close> branch is never taken. \<open>sorted\<close> orders text by code point.
\<close>

definition valid_vals_filtered :: "('a \<Rightarrow> string) \<Rightarrow> 'a option list \<Rightarrow> string list" where
  "valid_vals_filtered str series =
     (let unique_vals = unique (dropna series);
          valid_vals_str = map str unique_vals
      in filter (\<lambda>val. lower (strip val) \<notin> set null_sentinels) valid_vals_str)"

definition get_unique_sorted_list :: "('a \<Rightarrow> string) \<Rightarrow> 'a option list \<Rightarrow> string list option" where
  "get_unique_sorted_list str series =
     (let vals = valid_vals_filtered str series
      in if length vals > 0 then Some (sort vals) else None)"

text \<open>
  The field aggregator in the words of the specification: drop nulls, stringify, drop the
  null sentinels, deduplicate, sort; null when nothing is left.
\<close>

definition field_aggregator_spec :: "('a \<Rightarrow> string) \<Rightarrow> 'a option list \<Rightarrow> string list option" where
  "field_aggregator_spec str series =
     (let vals = remdups (filter (\<lambda>val. lower (strip val) \<notin> set null_sentinels) (map str (dropna series)))
      in if vals = [] then None else Some (sort vals))"

section \<open>Country names\<close>

definition LIST_DELIMITER :: string where
  "LIST_DELIMITER = ''; ''"

text \<open>
  \<open>s.split(sep)\<close> for a separator that is not empty: the text is cut at every occurrence of
  the separator, found from left to right. \<open>sep.join(parts)\<close> puts it back between the
  parts.
\<close>

fun split_acc :: "string \<Rightarrow> string \<Rightarrow> string \<Rightarrow> string list" where
  "split_acc sep acc [] = [rev acc]"
| "split_acc sep acc (c # cs) =
     (if sep \<noteq> [] \<and> prefix sep (c # cs)
      then rev acc # split_acc sep [] (drop (length sep - 1) cs)
      else split_acc sep (c # acc) cs)"

definition split :: "string \<Rightarrow> string \<Rightarrow> string list" where
  "split sep s = split_acc sep [] s"

fun join :: "string \<Rightarrow> string list \<Rightarrow> string" where
  "join sep [] = []"
| "join sep [p] = p"
| "join sep (p # q # ps) = p @ sep @ join sep (q # ps)"

text \<open>The replacement table of \<open>standardize_countries_in_agg_col\<close>, in the order of the source.\<close>

definition country_replacement_map :: "(string \<times> string) list" where
  "country_replacement_map =
     [(''Russian Federation'', ''Russia''),
      (''Russian'', ''Russia''),
      (''RUSSIA'', ''Russia''),
      (''Belarusian SSR, (now Belarus)'', ''Belarus''),
      (''Uzbekhistan'', ''Uzbekistan''),
      (''Ukrainian SSR now Ukraine'', ''Ukrainian SSR (now Ukraine)''),
      (''Ukrainian SSR (Ukraine)'', ''Ukrainian SSR (now Ukraine)''),
      (''Ukrainian SSR'', ''Ukrainian SSR (now Ukraine)''),
      (''Kazakh Soviet Socialist Republic (now Kazakhstan)'', ''Kazakh SSR (now Kazakhstan)''),
      (''Kazakh Soviet Socialist Republic'', ''Kazakh SSR (now Kazakhstan)''),
      (''Kazakh SSR'', ''Kazakh SSR (now Kazakhstan)''),
      (''Bosnia-Herzegovina'', ''Bosnia and Herzegovina''),
      (''Uzbek SSR'', ''Uzbekistan SSR (now Uzbekistan)''),
      (''USSR'', ''Russia (USSR)''),
      (''United Republic of Tanzania'', ''Tanzania''),
      (''German'', ''Germany''),
      (''Democratic People'' @ [CHR 0x27] @ ''s Republic of Korea'', ''North Korea''),
      (''DPRK'', ''North Korea''),
      (''T'' @ [CHR 0xFC] @ ''rkiye'', ''Turkey''),
      (''United States of America'', ''United States''),
      (''Guinea-Bissau'', ''Guinea Bissau'')]"

definition replacement :: "string \<Rightarrow> string" where
  "replacement country = (case map_of country_replacement_map country of None \<Rightarrow> country | Some name \<Rightarrow> name)"

text \<open>
  \<open>standardize_cell\<close>. The set \<open>standardized_countries\<close> is the list of the names added to
  it; \<open>sorted(list(...))\<close> of the set is that list sorted without its duplicates.
\<close>

definition standardized_countries :: "string \<Rightarrow> string list" where
  "standardized_countries cell_text =
     (let countries = map strip (split LIST_DELIMITER cell_text)
      in filter (\<lambda>standardized_name. standardized_name \<noteq> []) (map replacement countries))"

definition standardize_cell :: "string option \<Rightarrow> string option" where
  "standardize_cell cell_value =
     (case cell_value of
        None \<Rightarrow> None
      | Some cell_text \<Rightarrow>
          (let names = standardized_countries cell_text
           in if names \<noteq> [] then Some (join LIST_DELIMITER (sort (remdups names))) else None))"

text \<open>An occurrence of the list delimiter in a text.\<close>

fun has_delim :: "string \<Rightarrow> bool" where
  "has_delim (c # d # r) = ((c = CHR '';'' \<and> d = CHR '' '') \<or> has_delim (d # r))"
| "has_delim r = False"

text \<open>
  \<open>country_extract_pattern\<close> is \<open>^(?:\(\w{1,3}\)\s*)*(.*?)(\s*\(\d+\).*)*$\<close>. Group 1 is the
  lazy \<open>(.*?)\<close>; the last group is never read by the script and is run without a capture.
  The dot does not match a line feed.
\<close>

definition code_prefix :: matcher where
  "code_prefix = seqs [lit ''('', rep_cls True 1 (Some 3) isword, lit '')'', rep_cls True 0 None isspace]"

definition number_annotation :: matcher where
  "number_annotation =
     seqs [rep_cls True 0 None isspace, lit ''('', rep_cls True 1 None isdigit, lit '')'',
           rep_cls True 0 None not_newline]"

definition country_extract_pattern :: matcher where
  "country_extract_pattern =
     seqs [star_m code_prefix, grp (rep_cls False 0 None not_newline), star_m number_annotation, eol]"

definition clean_country_string :: "string option \<Rightarrow> string option" where
  "clean_country_string country =
     (case country of
        None \<Rightarrow> None
      | Some country_str \<Rightarrow>
          (let cleaned_name =
                 (case re_match country_extract_pattern country_str of
                    Some gs \<Rightarrow> strip (gs ! 0)
                  | None \<Rightarrow> strip country_str);
               cleaned_name = (if cleaned_name \<noteq> [] then rstrip_chars ''., '' cleaned_name else cleaned_name)
           in if cleaned_name \<noteq> [] then Some cleaned_name else None))"

text \<open>
  The row-level cleanse in the words of the specification: take off the leading bracketed
  short codes (one to three word characters in parentheses, with the white space after
  them, as often as they come), cut the text where a parenthesised number begins (with the
  white space before it), trim, strip trailing periods, commas and spaces, and give null for
  an empty result.
\<close>

definition leading_code :: "string \<Rightarrow> string option" where
  "leading_code s =
     (case s of
        [] \<Rightarrow> None
      | c # r \<Rightarrow>
          (let w = takeWhile isword r; r2 = drop (length w) r
           in if c = CHR ''('' \<and> 1 \<le> length w \<and> length w \<le> 3 \<and> r2 \<noteq> [] \<and> hd r2 = CHR '')''
              then Some (dropWhile isspace (tl r2)) else None))"

fun strip_codes_fuel :: "nat \<Rightarrow> string \<Rightarrow> string" where
  "strip_codes_fuel 0 s = s"
| "strip_codes_fuel (Suc n) s = (case leading_code s of None \<Rightarrow> s | Some r \<Rightarrow> strip_codes_fuel n r)"

definition strip_codes :: "string \<Rightarrow> string" where
  "strip_codes s = strip_codes_fuel (length s) s"

definition starts_annotation :: "string \<Rightarrow> bool" where
  "starts_annotation s =
     (let r = dropWhile isspace s in
      r \<noteq> [] \<and> hd r = CHR ''('' \<and>
      (let ds = takeWhile isdigit (tl r); r2 = drop (length ds) (tl r)
       in ds \<noteq> [] \<and> r2 \<noteq> [] \<and> hd r2 = CHR '')''))"

fun before_annotation :: "string \<Rightarrow> string" where
  "before_annotation [] = []"
| "before_annotation (c # cs) = (if starts_annotation (c # cs) then [] else c # before_annotation cs)"

definition country_cleanse_spec :: "string \<Rightarrow> string option" where
  "country_cleanse_spec s =
     (let name = rstrip_chars ''., '' (strip (before_annotation (strip_codes s)))
      in if name = [] then None else Some name)"

section \<open>Rows\<close>

text \<open>
  One row of the input table, as \<open>pd.read_csv\<close> delivers it: the columns the script reads,
  under their names in lower case. Every textual column is read as text; the entity
  identifier is an integer, or missing. pandas holds the identifier column as \<open>int64\<close> when
  no row lacks an identifier and as \<open>float64\<close> when one does, so the integers of the model
  are the identifiers of the program as long as both types hold them exactly, that is up to
  \<open>2^53\<close> in absolute value; the properties of the table are stated for such identifiers.
\<close>

record source_row =
  group_id :: "int option"
  alias_type :: "string option"
  group_type :: "string option"
  regime :: "string option"
  title :: "string option"
  name_1 :: "string option"
  name_2 :: "string option"
  name_3 :: "string option"
  name_4 :: "string option"
  name_5 :: "string option"
  name_6 :: "string option"
  name_non_latin_script :: "string option"
  dob :: "string option"
  country_of_birth :: "string option"
  nationality :: "string option"
  country :: "string option"
  address_1 :: "string option"
  address_2 :: "string option"
  address_3 :: "string option"
  address_4 :: "string option"
  address_5 :: "string option"
  address_6 :: "string option"
  post_zip_code :: "string option"
  position :: "string option"
  passport_number :: "string option"
  national_identification_number :: "string option"
  listed_on :: "string option"
  uk_sanctions_list_date_designated :: "string option"
  last_updated :: "string option"

text \<open>
  The columns that steps 2 to 4 of \<open>main\<close> add to a row. The raw \<open>DOB\<close> column is dropped
  there and not read again; the three country columns are overwritten with their cleansed
  text.
\<close>

record prepared_row = source_row +
  DOB_raw :: "string option"
  DOB_parsed :: "timestamp option"
  DOB_Precision :: string
  DOB_year :: "int option"
  Constructed_Name :: "string option"
  Name_Non_Latin_Raw :: "string option"

definition construct_full_name :: "'a source_row_scheme \<Rightarrow> string option" where
  "construct_full_name row =
     (let name_parts = map strip (dropna (title row # map (\<lambda>col. col row) [name_1, name_2, name_3, name_4, name_5, name_6]));
          name_parts = filter (\<lambda>part. part \<noteq> []) name_parts
      in if name_parts \<noteq> [] then Some (join '' '' name_parts) else None)"

definition prepare_row :: "int \<Rightarrow> timestamp \<Rightarrow> source_row \<Rightarrow> py_error + prepared_row" where
  "prepare_row current_year now row =
     bind_err (parse_dob_comprehensive current_year now (dob row)) (\<lambda>(parsed, precision).
       Inr (source_row.extend
             (row\<lparr>country_of_birth := clean_country_string (country_of_birth row),
                  nationality := clean_country_string (nationality row),
                  country := clean_country_string (country row)\<rparr>)
             (prepared_row.fields (dob row) parsed precision (map_option ts_year parsed)
                (construct_full_name row) (name_non_latin_script row))))"

text \<open>A step that can fail, over every element of a list in order: the first failure ends it.\<close>

fun map_err :: "('a \<Rightarrow> 'e + 'b) \<Rightarrow> 'a list \<Rightarrow> 'e + 'b list" where
  "map_err f [] = Inr []"
| "map_err f (x # xs) = bind_err (f x) (\<lambda>y. bind_err (map_err f xs) (\<lambda>ys. Inr (y # ys)))"

section \<open>Aggregating a group\<close>

text \<open>
  The columns of the output table that come from \<open>aggregate_sanctions_data\<close> and survive the
  refinement of step 6, and the dictionary \<open>final_data\<close> that the function returns, which has
  the column \<open>DOB_Raw_Agg\<close> as well. The three metadata dates are text until step 8 and dates
  afterwards, hence the type parameter.
\<close>

record 'd columns =
  Primary_Name :: "string option"
  Aliases :: "string option"
  Primary_Name_Non_Latin :: "string option"
  Aliases_Non_Latin :: "string option"
  Group_Type :: "string option"
  Regime :: "string option"
  DOB_Parsed_Agg :: "string option"
  DOB_Year_Agg :: "string option"
  DOB_Precision_Agg :: "string option"
  Countries_of_Birth :: "string option"
  Nationalities :: "string option"
  Countries_Address :: "string option"
  All_Associated_Countries :: "string option"
  Positions :: "string option"
  Passport_Numbers_Agg :: "string option"
  National_IDs_Agg :: "string option"
  Full_Address_Agg :: "string option"
  Listed_On :: 'd
  UK_Sanctions_List_Date_Designated :: 'd
  Last_Updated :: 'd

record 'd final_data = "'d columns" +
  DOB_Raw_Agg :: "string option"

text \<open>Decimal notation of an integer (\<open>str\<close> on the year column) and zero padding.\<close>

fun digits_fuel :: "nat \<Rightarrow> nat \<Rightarrow> string" where
  "digits_fuel 0 n = [char_of (48 + n mod 10)]"
| "digits_fuel (Suc fuel) n =
     (if n < 10 then [char_of (48 + n)] else digits_fuel fuel (n div 10) @ [char_of (48 + n mod 10)])"

definition str_nat :: "nat \<Rightarrow> string" where
  "str_nat n = digits_fuel n n"

definition str_int :: "int \<Rightarrow> string" where
  "str_int i = (if i < 0 then ''-'' @ str_nat (nat (- i)) else str_nat (nat i))"

definition zfill :: "nat \<Rightarrow> string \<Rightarrow> string" where
  "zfill width s = replicate (width - length s) CHR ''0'' @ s"

definition strftime_ymd :: "timestamp \<Rightarrow> string" where
  "strftime_ymd dt =
     zfill 4 (str_int (ts_year dt)) @ ''-'' @ zfill 2 (str_int (ts_month dt)) @ ''-'' @ zfill 2 (str_int (ts_day dt))"

text \<open>
  The canonical row: the first row tagged \<open>Primary name\<close>, else the first tagged
  \<open>Primary name variation\<close>, else \<open>group.iloc[[0]]\<close>, which raises \<open>IndexError\<close> on a group
  without rows.
\<close>

definition select_primary_row :: "prepared_row list \<Rightarrow> py_error + prepared_row" where
  "select_primary_row group_df =
     (let primary_row = take 1 (filter (\<lambda>row. alias_type row = Some ''Primary name'') group_df);
          primary_row = (if primary_row = []
                         then take 1 (filter (\<lambda>row. alias_type row = Some ''Primary name variation'') group_df)
                         else primary_row)
      in if primary_row = []
         then (case group_df of [] \<Rightarrow> Inl IndexError | row # rest \<Rightarrow> Inr row)
         else Inr (hd primary_row))"

definition join_or_none :: "string list option \<Rightarrow> string option" where
  "join_or_none agg = (case agg of None \<Rightarrow> None | Some vals \<Rightarrow> if vals \<noteq> [] then Some (join LIST_DELIMITER vals) else None)"

definition aggregate_sanctions_data :: "prepared_row list \<Rightarrow> py_error + string option final_data" where
  "aggregate_sanctions_data group_df =
     bind_err (select_primary_row group_df) (\<lambda>primary_row.
       let primary_name = Constructed_Name primary_row;
           primary_name_nl = Name_Non_Latin_Raw primary_row;
           all_constructed_names = remdups (dropna (map Constructed_Name group_df));
           aliases = (case primary_name of
                        None \<Rightarrow> sort all_constructed_names
                      | Some name \<Rightarrow> if name \<noteq> [] then sort (removeAll name all_constructed_names)
                                     else sort all_constructed_names);
           all_nl_names = remdups (dropna (map Name_Non_Latin_Raw group_df));
           aliases_nl = (case primary_name_nl of
                           None \<Rightarrow> sort all_nl_names
                         | Some name \<Rightarrow> sort (removeAll name all_nl_names));
           dob_raw_agg = get_unique_sorted_list (\<lambda>s. s) (map DOB_raw group_df);
           unique_parsed_dobs = unique (dropna (map DOB_parsed group_df));
           dob_parsed_agg_list = sort_key (\<lambda>dt. (ts_year dt, ts_month dt, ts_day dt)) unique_parsed_dobs;
           dob_year_agg = get_unique_sorted_list str_int (map DOB_year group_df);
           dob_precision_agg = get_unique_sorted_list (\<lambda>s. s) (map (\<lambda>row. Some (DOB_Precision row)) group_df);
           countries_birth = get_unique_sorted_list (\<lambda>s. s) (map country_of_birth group_df);
           nationalities = get_unique_sorted_list (\<lambda>s. s) (map nationality group_df);
           countries_addr = get_unique_sorted_list (\<lambda>s. s) (map country group_df);
           all_countries_set = remdups (concat (dropna [countries_birth, nationalities, countries_addr]));
           all_associated_countries = sort all_countries_set;
           positions = get_unique_sorted_list (\<lambda>s. s) (map position group_df);
           passport_nums = get_unique_sorted_list (\<lambda>s. s) (map passport_number group_df);
           nat_ids = get_unique_sorted_list (\<lambda>s. s) (map national_identification_number group_df);
           addr_cols = [address_1, address_2, address_3, address_4, address_5, address_6, post_zip_code];
           address_components =
             concat (map (\<lambda>col. unique (map (\<lambda>row. case col row of None \<Rightarrow> ''nan'' | Some a \<Rightarrow> a) group_df)) addr_cols);
           address_components = filter (\<lambda>addr. lower (strip addr) \<noteq> ''nan'') address_components
       in Inr \<lparr>Primary_Name = primary_name,
               Aliases = join_or_none (Some aliases),
               Primary_Name_Non_Latin = primary_name_nl,
               Aliases_Non_Latin = join_or_none (Some aliases_nl),
               Group_Type = group_type primary_row,
               Regime = regime primary_row,
               DOB_Parsed_Agg = join_or_none (Some (map strftime_ymd dob_parsed_agg_list)),
               DOB_Year_Agg = join_or_none dob_year_agg,
               DOB_Precision_Agg = join_or_none dob_precision_agg,
               Countries_of_Birth = join_or_none countries_birth,
               Nationalities = join_or_none nationalities,
               Countries_Address = join_or_none countries_addr,
               All_Associated_Countries = join_or_none (Some all_associated_countries),
               Positions = join_or_none positions,
               Passport_Numbers_Agg = join_or_none passport_nums,
               National_IDs_Agg = join_or_none nat_ids,
               Full_Address_Agg = (if address_components \<noteq> [] then Some (join '', '' address_components) else None),
               Listed_On = listed_on primary_row,
               UK_Sanctions_List_Date_Designated = uk_sanctions_list_date_designated primary_row,
               Last_Updated = last_updated primary_row,
               DOB_Raw_Agg = join_or_none dob_raw_agg\<rparr>)"

text \<open>
  The canonical row in the words of the specification: the first row whose tag is
  \<open>Primary name\<close>; if none, the first tagged \<open>Primary name variation\<close>; if still none, the
  first row of the group.
\<close>

definition canonical_row :: "prepared_row list \<Rightarrow> prepared_row option" where
  "canonical_row group_df =
     (case find (\<lambda>row. alias_type row = Some ''Primary name'') group_df of
        Some row \<Rightarrow> Some row
      | None \<Rightarrow>
          (case find (\<lambda>row. alias_type row = Some ''Primary name variation'') group_df of
             Some row \<Rightarrow> Some row
           | None \<Rightarrow> (case group_df of [] \<Rightarrow> None | row # rest \<Rightarrow> Some row)))"

section \<open>The table\<close>

text \<open>
  A row of the structured table: the entity identifier from the index of the groups and the
  columns kept by step 6. The table also carries whether pandas holds the identifier column
  in an integer type (it does when no identifier of the input was missing), and whether it
  has the columns that \<open>aggregate_sanctions_data\<close> returns: \<open>groupby(...).apply\<close> makes them
  from the results of the groups, so the frame it returns for a table without any group has
  no row and none of these columns.
\<close>

record 'd structured_row = "'d columns" +
  Group_ID :: "int option"

record 'd table =
  rows :: "'d structured_row list"
  group_id_integer :: bool
  aggregated_columns :: bool

text \<open>
  \<open>groupby("Group ID")\<close>: one group per identifier, identifiers ascending, rows without an
  identifier left out, the rows of a group in input order.
\<close>

definition groupby :: "prepared_row list \<Rightarrow> (int \<times> prepared_row list) list" where
  "groupby df =
     map (\<lambda>key. (key, filter (\<lambda>row. group_id row = Some key) df))
         (sort (remdups (dropna (map group_id df))))"

text \<open>\<open>reset_index\<close> and step 6: the identifier becomes a column, \<open>DOB_Raw_Agg\<close> is dropped.\<close>

definition refine_columns :: "int \<times> string option final_data \<Rightarrow> string option structured_row" where
  "refine_columns entry =
     (case entry of (key, d) \<Rightarrow>
        \<lparr>Primary_Name = Primary_Name d, Aliases = Aliases d,
         Primary_Name_Non_Latin = Primary_Name_Non_Latin d, Aliases_Non_Latin = Aliases_Non_Latin d,
         Group_Type = Group_Type d, Regime = Regime d,
         DOB_Parsed_Agg = DOB_Parsed_Agg d, DOB_Year_Agg = DOB_Year_Agg d,
         DOB_Precision_Agg = DOB_Precision_Agg d,
         Countries_of_Birth = Countries_of_Birth d, Nationalities = Nationalities d,
         Countries_Address = Countries_Address d, All_Associated_Countries = All_Associated_Countries d,
         Positions = Positions d, Passport_Numbers_Agg = Passport_Numbers_Agg d,
         National_IDs_Agg = National_IDs_Agg d, Full_Address_Agg = Full_Address_Agg d,
         Listed_On = Listed_On d, UK_Sanctions_List_Date_Designated = UK_Sanctions_List_Date_Designated d,
         Last_Updated = Last_Updated d, Group_ID = Some key\<rparr>)"

text \<open>
  A pass over the table works column by column: \<open>map_columns f g\<close> applies \<open>f\<close> to every cell
  of the textual columns and \<open>g\<close> to every cell of the three metadata date columns, and leaves
  the identifier alone.
\<close>

definition map_columns ::
  "(string option \<Rightarrow> string option) \<Rightarrow> ('d \<Rightarrow> 'e) \<Rightarrow> 'd structured_row \<Rightarrow> 'e structured_row" where
  "map_columns f g r =
     \<lparr>Primary_Name = f (Primary_Name r), Aliases = f (Aliases r),
      Primary_Name_Non_Latin = f (Primary_Name_Non_Latin r), Aliases_Non_Latin = f (Aliases_Non_Latin r),
      Group_Type = f (Group_Type r), Regime = f (Regime r),
      DOB_Parsed_Agg = f (DOB_Parsed_Agg r), DOB_Year_Agg = f (DOB_Year_Agg r),
      DOB_Precision_Agg = f (DOB_Precision_Agg r),
      Countries_of_Birth = f (Countries_of_Birth r), Nationalities = f (Nationalities r),
      Countries_Address = f (Countries_Address r), All_Associated_Countries = f (All_Associated_Countries r),
      Positions = f (Positions r), Passport_Numbers_Agg = f (Passport_Numbers_Agg r),
      National_IDs_Agg = f (National_IDs_Agg r), Full_Address_Agg = f (Full_Address_Agg r),
      Listed_On = g (Listed_On r), UK_Sanctions_List_Date_Designated = g (UK_Sanctions_List_Date_Designated r),
      Last_Updated = g (Last_Updated r), Group_ID = Group_ID r\<rparr>"

definition map_rows :: "('d structured_row \<Rightarrow> 'e structured_row) \<Rightarrow> 'd table \<Rightarrow> 'e table" where
  "map_rows f df =
     \<lparr>rows = map f (rows df), group_id_integer = group_id_integer df,
      aggregated_columns = aggregated_columns df\<rparr>"

text \<open>
  \<open>remove_lrm\<close> takes the left-to-right mark U+200E out of every text and makes the texts
  \<open>nan\<close>, \<open>None\<close>, \<open><NA>\<close> and the empty text null. The mark is not among the characters
  of the model (it lies above 255), so \<open>str.replace(lrm_char, "")\<close> leaves a text of the
  model as it is.
\<close>

definition remove_lrm_cell :: "string option \<Rightarrow> string option" where
  "remove_lrm_cell c =
     (case c of
        None \<Rightarrow> None
      | Some s \<Rightarrow> (if s \<in> set [''nan'', ''None'', ''<NA>'', ''''] then None else Some s))"

definition remove_lrm :: "string option table \<Rightarrow> string option table" where
  "remove_lrm df = map_rows (map_columns remove_lrm_cell remove_lrm_cell) df"

text \<open>\<open>pd.to_datetime(..., format="%d/%m/%Y", errors="coerce")\<close>: what does not parse is null.\<close>

definition to_datetime_coerce :: "timestamp \<Rightarrow> string option \<Rightarrow> timestamp option" where
  "to_datetime_coerce now c =
     (case c of None \<Rightarrow> None | Some s \<Rightarrow> (case to_datetime now s of Inl e \<Rightarrow> None | Inr d \<Rightarrow> d))"

definition convert_metadata_dates :: "timestamp \<Rightarrow> string option table \<Rightarrow> timestamp option table" where
  "convert_metadata_dates now df = map_rows (map_columns (\<lambda>c. c) (to_datetime_coerce now)) df"

text \<open>\<open>str.replace(r"\s{2,}", " ", regex=True)\<close>: a run of two or more white-space characters becomes one blank.\<close>

fun collapse_spaces_fuel :: "nat \<Rightarrow> string \<Rightarrow> string" where
  "collapse_spaces_fuel 0 s = s"
| "collapse_spaces_fuel (Suc fuel) [] = []"
| "collapse_spaces_fuel (Suc fuel) (c # cs) =
     (if isspace c \<and> cs \<noteq> [] \<and> isspace (hd cs)
      then CHR '' '' # collapse_spaces_fuel fuel (dropWhile isspace cs)
      else c # collapse_spaces_fuel fuel cs)"

definition collapse_spaces :: "string \<Rightarrow> string" where
  "collapse_spaces s = collapse_spaces_fuel (length s) s"

definition clean_whitespace_cell :: "string option \<Rightarrow> string option" where
  "clean_whitespace_cell c =
     (case c of
        None \<Rightarrow> None
      | Some s \<Rightarrow> (let cleaned = collapse_spaces (strip s) in if cleaned = [] then None else Some cleaned))"

definition clean_all_whitespace :: "timestamp option table \<Rightarrow> timestamp option table" where
  "clean_all_whitespace df = map_rows (map_columns clean_whitespace_cell (\<lambda>d. d)) df"

definition standardize_countries_in_agg_col :: "'d table \<Rightarrow> 'd table" where
  "standardize_countries_in_agg_col df =
     map_rows (\<lambda>r. r\<lparr>Countries_of_Birth := standardize_cell (Countries_of_Birth r),
                       Nationalities := standardize_cell (Nationalities r),
                       Countries_Address := standardize_cell (Countries_Address r),
                       All_Associated_Countries := standardize_cell (All_Associated_Countries r)\<rparr>) df"

section \<open>The quality gate\<close>

datatype issue =
    FAIL_critical_nulls
  | FAIL_duplicate_group_id
  | FAIL_group_id_not_integer
  | WARN_empty_strings
  | FAIL_unexpected_group_type

text \<open>
  \<open>run_final_checks\<close> collects its findings in \<open>issues_found\<close> and lowers \<open>ready_for_export\<close>
  on every \<open>FAIL\<close>. The metadata date columns of the table are dates by their type, so the
  warning about their type is never raised. In quiet mode the function returns \<open>True\<close> at
  once. In verbose mode its first step is \<open>df[critical_cols]\<close>, which raises \<open>KeyError\<close> on a
  frame without the aggregated columns; the function does not catch it.
\<close>

definition critical_nulls :: "'d structured_row list \<Rightarrow> bool" where
  "critical_nulls rs =
     (\<exists>r \<in> set rs. Group_ID r = None \<or> Primary_Name r = None \<or> Group_Type r = None \<or> Regime r = None)"

definition empty_strings :: "'d structured_row list \<Rightarrow> bool" where
  "empty_strings rs =
     (\<exists>r \<in> set rs. \<exists>c \<in> set [Primary_Name r, Group_Type r, Regime r].
        (case c of None \<Rightarrow> False | Some s \<Rightarrow> strip s = []))"

definition expected_group_types :: "string list" where
  "expected_group_types = [''Individual'', ''Entity'', ''Ship'']"

definition unexpected_types :: "'d structured_row list \<Rightarrow> string list" where
  "unexpected_types rs = filter (\<lambda>t. t \<notin> set expected_group_types) (unique (dropna (map Group_Type rs)))"

definition final_checks :: "'d table \<Rightarrow> bool \<times> issue list" where
  "final_checks df =
     (let rs = rows df;
          st = (True, []);
          st = (if critical_nulls rs then (False, snd st @ [FAIL_critical_nulls]) else st);
          st = (if \<not> distinct (map Group_ID rs) then (False, snd st @ [FAIL_duplicate_group_id]) else st);
          st = (if \<not> group_id_integer df then (False, snd st @ [FAIL_group_id_not_integer]) else st);
          st = (if empty_strings rs then (fst st, snd st @ [WARN_empty_strings]) else st);
          st = (if unexpected_types rs \<noteq> [] then (False, snd st @ [FAIL_unexpected_group_type]) else st)
      in st)"

definition run_final_checks :: "'d table \<Rightarrow> bool \<Rightarrow> py_error + bool" where
  "run_final_checks df verbose =
     (if \<not> verbose then Inr True
      else if \<not> aggregated_columns df then Inl KeyError
      else Inr (fst (final_checks df)))"

section \<open>The pipeline\<close>

text \<open>
  \<open>sort_values(by="Group ID")\<close> puts missing identifiers last. \<open>main\<close> runs steps 2 to 12 on
  the loaded table: an exception of a step, the \<open>KeyError\<close> of the final checks included,
  ends the run (\<open>Inl\<close>, the fatal error of the script, which exits without an output);
  otherwise the result is the exported table and whether the warning that the checks found
  issues was printed. Every row is prepared with the same reading of the clock.
\<close>

definition sort_values :: "'d table \<Rightarrow> 'd table" where
  "sort_values df =
     \<lparr>rows = sort_key (\<lambda>r. case Group_ID r of None \<Rightarrow> (1 :: nat, 0 :: int) | Some k \<Rightarrow> (0, k)) (rows df),
      group_id_integer = group_id_integer df,
      aggregated_columns = aggregated_columns df\<rparr>"

definition aggregate_table :: "int \<Rightarrow> timestamp \<Rightarrow> source_row list \<Rightarrow> py_error + string option table" where
  "aggregate_table current_year now uk_sanctions_raw =
     bind_err (map_err (prepare_row current_year now) uk_sanctions_raw) (\<lambda>prepared.
     bind_err (map_err (\<lambda>(key, group_df). bind_err (aggregate_sanctions_data group_df) (\<lambda>d. Inr (key, d)))
                 (groupby prepared)) (\<lambda>structured_sanctions.
     Inr \<lparr>rows = map refine_columns structured_sanctions,
          group_id_integer = list_all (\<lambda>row. group_id row \<noteq> None) uk_sanctions_raw,
          aggregated_columns = (groupby prepared \<noteq> [])\<rparr>))"

definition post_aggregation :: "timestamp \<Rightarrow> string option table \<Rightarrow> timestamp option table" where
  "post_aggregation now df =
     standardize_countries_in_agg_col (clean_all_whitespace (convert_metadata_dates now (remove_lrm df)))"

definition main ::
  "bool \<Rightarrow> int \<Rightarrow> timestamp \<Rightarrow> source_row list \<Rightarrow> py_error + (bool \<times> timestamp option table)" where
  "main verbose current_year now uk_sanctions_raw =
     bind_err (aggregate_table current_year now uk_sanctions_raw) (\<lambda>aggregated.
       let structured_sanctions = post_aggregation now aggregated
       in bind_err (run_final_checks structured_sanctions verbose) (\<lambda>is_ready.
            let warned = (\<not> is_ready \<and> verbose)
            in Inr (warned, sort_values structured_sanctions)))"

section \<open>Example data\<close>

text \<open>
  Data for the worked examples: a reading of the clock, a prepared row of an individual with
  its identifier, its alias-type tag and its constructed name, an input row with its
  identifier and its first name, and a row of the final table with its identifier and its
  primary name. Every other column is empty, apart from the group type and the regime.
\<close>

definition example_now :: timestamp where
  "example_now = \<lparr>ts_year = 2026, ts_month = 11, ts_day = 4\<rparr>"

definition example_prepared_row :: "int \<Rightarrow> string option \<Rightarrow> string \<Rightarrow> prepared_row" where
  "example_prepared_row key tag name =
     \<lparr>group_id = Some key, alias_type = tag, group_type = Some ''Individual'', regime = Some ''Russia'',
      title = None, name_1 = Some name, name_2 = None, name_3 = None, name_4 = None, name_5 = None,
      name_6 = None, name_non_latin_script = None, dob = None, country_of_birth = None,
      nationality = None, country = None, address_1 = None, address_2 = None, address_3 = None,
      address_4 = None, address_5 = None, address_6 = None, post_zip_code = None, position = None,
      passport_number = None, national_identification_number = None, listed_on = Some ''01/02/2020'',
      uk_sanctions_list_date_designated = None, last_updated = None,
      DOB_raw = None, DOB_parsed = None, DOB_Precision = ''Missing'', DOB_year = None,
      Constructed_Name = Some name, Name_Non_Latin_Raw = None\<rparr>"

definition example_source_row :: "int option \<Rightarrow> string \<Rightarrow> source_row" where
  "example_source_row key name =
     \<lparr>group_id = key, alias_type = Some ''Primary name'', group_type = Some ''Individual'',
      regime = Some ''Russia'',
      title = None, name_1 = Some name, name_2 = None, name_3 = None, name_4 = None, name_5 = None,
      name_6 = None, name_non_latin_script = None, dob = None, country_of_birth = None,
      nationality = None, country = None, address_1 = None, address_2 = None, address_3 = None,
      address_4 = None, address_5 = None, address_6 = None, post_zip_code = None, position = None,
      passport_number = None, national_identification_number = None, listed_on = None,
      uk_sanctions_list_date_designated = None, last_updated = None\<rparr>"

definition example_structured_row :: "int option \<Rightarrow> string option \<Rightarrow> timestamp option structured_row" where
  "example_structured_row key name =
     \<lparr>Primary_Name = name, Aliases = None, Primary_Name_Non_Latin = None, Aliases_Non_Latin = None,
      Group_Type = Some ''Individual'', Regime = Some ''Russia'', DOB_Parsed_Agg = None,
      DOB_Year_Agg = None, DOB_Precision_Agg = Some ''Missing'', Countries_of_Birth = None,
      Nationalities = None, Countries_Address = None, All_Associated_Countries = None,
      Positions = None, Passport_Numbers_Agg = None, National_IDs_Agg = None, Full_Address_Agg = None,
      Listed_On = None, UK_Sanctions_List_Date_Designated = None, Last_Updated = None,
      Group_ID = key\<rparr>"

text \<open>
  A column of Python objects that are not all text: a value is a string or an integer, and
  \<open>str\<close> gives a string back as it is and an integer in decimal notation.
\<close>

datatype py_value = PyStr string | PyInt int

definition py_str :: "py_value \<Rightarrow> string" where
  "py_str v = (case v of PyStr s \<Rightarrow> s | PyInt i \<Rightarrow> str_int i)"

section \<open>What the matchers accept\<close>

lemma lit_iff: "(gs', s') \<in> set (lit w (gs, s)) \<longleftrightarrow> gs' = gs \<and> s = w @ s'"
  by (auto simp: lit_def prefix_def)

lemma takeWhile_take_all:
  "k \<le> length (takeWhile P s) \<Longrightarrow> list_all P (take k s)"
  by (induction s arbitrary: k) (auto simp: take_Cons' split: if_splits)

lemma all_prefix_le_takeWhile:
  assumes "list_all P c" shows "length c \<le> length (takeWhile P (c @ r))"
proof -
  have "takeWhile P (c @ r) = c @ takeWhile P r"
    using assms by (simp add: list_all_iff takeWhile_append2)
  then show ?thesis by simp
qed

lemma rep_cls_iff:
  "(gs', s') \<in> set (rep_cls g lo hi P (gs, s)) \<longleftrightarrow>
     gs' = gs \<and> (\<exists>c. s = c @ s' \<and> list_all P c \<and> lo \<le> length c
        \<and> (case hi of None \<Rightarrow> True | Some h \<Rightarrow> length c \<le> h))"
  (is "?L \<longleftrightarrow> ?R")
proof
  define n where "n = length (takeWhile P s)"
  define m where "m = (case hi of None \<Rightarrow> n | Some h \<Rightarrow> min h n)"
  have "rep_cls g lo hi P (gs, s) =
      map (\<lambda>k. (gs, drop k s)) (if g then rev [lo..<Suc m] else [lo..<Suc m])"
    unfolding m_def n_def by (simp add: rep_cls_def Let_def)
  then have "set (rep_cls g lo hi P (gs, s)) = (\<lambda>k. (gs, drop k s)) ` set [lo..<Suc m]"
    by (cases g) simp_all
  moreover have "set [lo..<Suc m] = {lo..m}" by auto
  ultimately have set_eq: "set (rep_cls g lo hi P (gs, s)) = (\<lambda>k. (gs, drop k s)) ` {lo..m}"
    by simp
  {
    assume ?L
    then obtain k where k: "lo \<le> k" "k \<le> m" and eq: "gs' = gs" "s' = drop k s"
      unfolding set_eq by auto
    have mn: "m \<le> n" by (simp add: m_def split: option.splits)
    have kn: "k \<le> length s" using k mn n_def length_takeWhile_le[of P s] by linarith
    have "s = take k s @ s'" using eq by simp
    moreover have "list_all P (take k s)" using takeWhile_take_all[of k P s] k mn n_def by simp
    moreover have "length (take k s) = k" using kn by simp
    moreover have "(case hi of None \<Rightarrow> True | Some h \<Rightarrow> k \<le> h)" using k by (simp add: m_def split: option.splits)
    ultimately show ?R using eq k by (intro conjI exI[of _ "take k s"]) (simp_all split: option.splits)
  }
  {
    assume ?R
    then obtain c where c: "gs' = gs" "s = c @ s'" "list_all P c" "lo \<le> length c"
       "(case hi of None \<Rightarrow> True | Some h \<Rightarrow> length c \<le> h)" by blast
    have "length c \<le> n" unfolding n_def c(2) by (rule all_prefix_le_takeWhile[OF c(3)])
    then have "length c \<le> m" using c(5) by (simp add: m_def split: option.splits)
    moreover have "s' = drop (length c) s" using c(2) by simp
    ultimately show ?L unfolding set_eq using c(1,4) by auto
  }
qed

lemma seq_m_iff: "x \<in> set (seq_m a b st) \<longleftrightarrow> (\<exists>y \<in> set (a st). x \<in> set (b y))"
  by (auto simp: seq_m_def)

lemma seqs_Nil: "seqs [] st = [st]" by (simp add: seqs_def)
lemma seqs_Cons: "seqs (m # ms) = seq_m m (seqs ms)" by (simp add: seqs_def)

lemma grp_iff:
  "(gs', s') \<in> set (grp m (gs, s)) \<longleftrightarrow>
     (\<exists>gs''. (gs'', s') \<in> set (m (gs, s)) \<and> gs' = gs'' @ [take (length s - length s') s])"
  by (auto simp: grp_def)

lemma eol_iff: "(gs', s') \<in> set (eol (gs, s)) \<longleftrightarrow> gs' = gs \<and> s' = s \<and> (s = [] \<or> s = [CHR 0x0A])"
  by (auto simp: eol_def)

lemma re_match_Some_in: "re_match p s = Some gs \<Longrightarrow> \<exists>r. (gs, r) \<in> set (p ([], s))"
  by (auto simp: re_match_def split: list.splits)

lemma re_match_unique:
  assumes "(gs, r) \<in> set (p ([], s))" and "\<And>gs' r'. (gs', r') \<in> set (p ([], s)) \<Longrightarrow> gs' = gs"
  shows "re_match p s = Some gs"
proof (cases "p ([], s)")
  case Nil
  with assms(1) show ?thesis by simp
next
  case (Cons x xs)
  obtain g' r' where x: "x = (g', r')" by (cases x)
  with Cons have "(g', r') \<in> set (p ([], s))" by simp
  then have "g' = gs" by (rule assms(2))
  with Cons x show ?thesis by (simp add: re_match_def)
qed

lemma re_match_None_iff: "re_match p s = None \<longleftrightarrow> set (p ([], s)) = {}"
  by (auto simp: re_match_def split: list.splits)

lemma grp_rep_iff:
  "(gs', s') \<in> set (grp (rep_cls g lo hi P) (gs, s)) \<longleftrightarrow>
     (\<exists>c. s = c @ s' \<and> gs' = gs @ [c] \<and> list_all P c \<and> lo \<le> length c
        \<and> (case hi of None \<Rightarrow> True | Some h \<Rightarrow> length c \<le> h))"
  unfolding grp_iff rep_cls_iff by auto

lemma slash_not_digit: "\<not> isdigit CHR ''/''"
  by (simp add: isdigit_def)

lemma digits_split_unique:
  assumes "list_all P a" "list_all P b" "\<not> P x" "a @ x # r = b @ x # r'"
  shows "a = b \<and> r = r'"
proof -
  have "takeWhile P (a @ x # r) = a" using assms(1,3) by (simp add: list_all_iff takeWhile_append2)
  moreover have "takeWhile P (b @ x # r') = b" using assms(2,3) by (simp add: list_all_iff takeWhile_append2)
  ultimately have "a = b" using assms(4) by simp
  with assms(4) show ?thesis by simp
qed

lemma pattern_00_mm_iff:
  "(gs, r) \<in> set (pattern_00_mm ([], t)) \<longleftrightarrow>
     (\<exists>mm yyyy. gs = [mm, yyyy] \<and> t = ''00/'' @ mm @ ''/'' @ yyyy @ r \<and> (r = [] \<or> r = [CHR 0x0A])
        \<and> list_all isdigit mm \<and> 1 \<le> length mm \<and> length mm \<le> 2
        \<and> list_all isdigit yyyy \<and> length yyyy = 4)"
  unfolding pattern_00_mm_def seqs_Cons seqs_Nil seq_m_iff
  apply (simp add: Bex_def lit_iff grp_rep_iff eol_iff)
  apply (rule iffI)
   apply (elim exE conjE)
   apply simp
  apply (elim exE conjE)
  apply simp
  done

lemma pattern_00_00_iff:
  "(gs, r) \<in> set (pattern_00_00 ([], t)) \<longleftrightarrow>
     (\<exists>yyyy. gs = [yyyy] \<and> t = ''00/00/'' @ yyyy @ r \<and> (r = [] \<or> r = [CHR 0x0A])
        \<and> list_all isdigit yyyy \<and> length yyyy = 4)"
  unfolding pattern_00_00_def seqs_Cons seqs_Nil seq_m_iff
  apply (simp add: Bex_def lit_iff grp_rep_iff eol_iff)
  apply (rule iffI)
   apply (elim exE conjE)
   apply simp
  apply (elim exE conjE)
  apply simp
  done

lemma strip_no_trailing_space: "strip s = [] \<or> \<not> isspace (last (strip s))"
proof (cases "dropWhile isspace (rev (lstrip s))")
  case Nil
  then show ?thesis by (simp add: strip_def rstrip_def)
next
  case (Cons c cs)
  then have "\<not> isspace c" using hd_dropWhile[of isspace "rev (lstrip s)"] by simp
  moreover have "last (strip s) = c" using Cons by (simp add: strip_def rstrip_def)
  ultimately show ?thesis by simp
qed

lemma newline_isspace: "isspace (CHR 0x0A)"
  by (simp add: isspace_def)

lemma re_match_00_mm_complete:
  assumes "is_00_mm_yyyy t mm yyyy"
  shows "re_match pattern_00_mm t = Some [mm, yyyy]"
proof (rule re_match_unique)
  show "([mm, yyyy], []) \<in> set (pattern_00_mm ([], t))"
    using assms unfolding pattern_00_mm_iff is_00_mm_yyyy_def
    by (intro exI[of _ mm] exI[of _ yyyy]) auto
next
  fix gs' r' assume "(gs', r') \<in> set (pattern_00_mm ([], t))"
  then obtain a b where ab: "gs' = [a, b]" "t = ''00/'' @ a @ ''/'' @ b @ r'" "r' = [] \<or> r' = [CHR 0x0A]"
     "list_all isdigit a" "list_all isdigit b" "length b = 4"
    unfolding pattern_00_mm_iff by blast
  from assms have t: "t = ''00/'' @ mm @ ''/'' @ yyyy" and d: "list_all isdigit mm" "list_all isdigit yyyy" "length yyyy = 4"
    by (simp_all add: is_00_mm_yyyy_def)
  from ab(2) t have "a @ CHR ''/'' # (b @ r') = mm @ CHR ''/'' # yyyy" by simp
  then have "a = mm \<and> b @ r' = yyyy"
    using digits_split_unique[OF ab(4) d(1) slash_not_digit] by blast
  moreover then have "b = yyyy" using ab(6) d(3) by (metis append_eq_append_conv append_Nil2 length_append add_diff_cancel_left' length_0_conv)
  ultimately show "gs' = [mm, yyyy]" using ab(1) by simp
qed

lemma re_match_00_mm_sound:
  assumes "re_match pattern_00_mm t = Some gs" "t = [] \<or> \<not> isspace (last t)"
  shows "\<exists>mm yyyy. gs = [mm, yyyy] \<and> is_00_mm_yyyy t mm yyyy"
proof -
  from re_match_Some_in[OF assms(1)] obtain r where "(gs, r) \<in> set (pattern_00_mm ([], t))" by blast
  then obtain mm yyyy where g: "gs = [mm, yyyy]" "t = ''00/'' @ mm @ ''/'' @ yyyy @ r" "r = [] \<or> r = [CHR 0x0A]"
      "list_all isdigit mm" "1 \<le> length mm" "length mm \<le> 2" "list_all isdigit yyyy" "length yyyy = 4"
    unfolding pattern_00_mm_iff by blast
  have "r = []"
  proof (rule ccontr)
    assume "r \<noteq> []"
    with g(3) have r: "r = [CHR 0x0A]" by simp
    then have "last t = CHR 0x0A" using g(2) by simp
    moreover have "t \<noteq> []" using g(2) by simp
    ultimately show False using assms(2) newline_isspace by simp
  qed
  then have "is_00_mm_yyyy t mm yyyy" using g by (auto simp: is_00_mm_yyyy_def)
  with g(1) show ?thesis by blast
qed

lemma re_match_00_00_complete:
  assumes "is_00_00_yyyy t yyyy"
  shows "re_match pattern_00_00 t = Some [yyyy]"
proof (rule re_match_unique)
  show "([yyyy], []) \<in> set (pattern_00_00 ([], t))"
    using assms unfolding pattern_00_00_iff is_00_00_yyyy_def
    by (intro exI[of _ yyyy]) auto
next
  fix gs' r' assume "(gs', r') \<in> set (pattern_00_00 ([], t))"
  then obtain b where ab: "gs' = [b]" "t = ''00/00/'' @ b @ r'" "length b = 4"
    unfolding pattern_00_00_iff by blast
  from assms have t: "t = ''00/00/'' @ yyyy" and d: "length yyyy = 4"
    by (simp_all add: is_00_00_yyyy_def)
  from ab(2) t have "b @ r' = yyyy" by simp
  then have "b = yyyy" using ab(3) d by (metis append_eq_append_conv append_Nil2 length_append add_diff_cancel_left' length_0_conv)
  then show "gs' = [yyyy]" using ab(1) by simp
qed


section \<open>Properties of the date-of-birth parser\<close>

lemma dob_inv_Some: "dob_inv (Some t, ''Full Date'')" "dob_inv (Some t, ''Month/Year Only'')" "dob_inv (Some t, ''Year Only'')"
  "dob_inv (None, ''Unknown/Failed'')"
  by (simp_all add: dob_inv_def)

lemma to_datetime_err: "to_datetime now s = Inl e \<Longrightarrow> e = ValueError"
  by (auto simp: to_datetime_def split: if_splits option.splits)

lemma Timestamp_err: "Timestamp y m d = Inl e \<Longrightarrow> e = ValueError"
  by (auto simp: Timestamp_def split: if_splits)

lemma dob_try_full_total: 
  assumes "dob_inv st" shows "case dob_try_full cy now s st of Inl e \<Rightarrow> False | Inr st' \<Rightarrow> dob_inv st'"
proof (cases "prefix ''00/'' s")
  case True
  with assms show ?thesis by (simp add: dob_try_full_def)
next
  case False
  show ?thesis
  proof (cases "to_datetime now s")
    case (Inl e)
    then have "e = ValueError" by (rule to_datetime_err)
    with Inl False assms show ?thesis by (simp add: dob_try_full_def)
  next
    case (Inr r)
    with False assms show ?thesis
      by (cases r) (simp_all add: dob_try_full_def dob_inv_Some)
  qed
qed

lemma dob_try_month_total:
  assumes "dob_inv st" shows "case dob_try_month cy s st of Inl e \<Rightarrow> False | Inr st' \<Rightarrow> dob_inv st'"
proof (cases "fst st = None")
  case False
  then have "dob_try_month cy s st = Inr st" unfolding dob_try_month_def by (rule if_not_P)
  with assms show ?thesis by simp
next
  case True
  show ?thesis
  proof (cases "re_match pattern_00_mm s")
    case None
    with True assms show ?thesis by (simp add: dob_try_month_def)
  next
    case (Some gs)
    show ?thesis
    proof (cases "Timestamp (int_of_digits (gs ! 1)) (int_of_digits (gs ! 0)) 1")
      case (Inl e)
      then have "e = ValueError" by (rule Timestamp_err)
      with Inl Some True assms show ?thesis by (simp add: dob_try_month_def Let_def)
    next
      case (Inr t)
      with Some True assms show ?thesis by (simp add: dob_try_month_def Let_def dob_inv_Some)
    qed
  qed
qed

lemma dob_try_year_total:
  assumes "dob_inv st" shows "case dob_try_year cy s st of Inl e \<Rightarrow> False | Inr st' \<Rightarrow> dob_inv st'"
proof (cases "fst st = None")
  case False
  then have "dob_try_year cy s st = Inr st" unfolding dob_try_year_def by (rule if_not_P)
  with assms show ?thesis by simp
next
  case True
  show ?thesis
  proof (cases "re_match pattern_00_00 s")
    case None
    with True assms show ?thesis by (simp add: dob_try_year_def)
  next
    case (Some gs)
    show ?thesis
    proof (cases "Timestamp (int_of_digits (gs ! 0)) 1 1")
      case (Inl e)
      then have "e = ValueError" by (rule Timestamp_err)
      with Inl Some True assms show ?thesis by (simp add: dob_try_year_def Let_def)
    next
      case (Inr t)
      with Some True assms show ?thesis by (simp add: dob_try_year_def Let_def dob_inv_Some)
    qed
  qed
qed

lemma parse_dob_steps:
  assumes "lower (strip raw) \<noteq> ''nan''"
  shows "\<exists>st1 st2 st3. dob_try_full cy now (strip raw) (None, ''Unknown/Failed'') = Inr st1
      \<and> dob_try_month cy (strip raw) st1 = Inr st2
      \<and> dob_try_year cy (strip raw) st2 = Inr st3
      \<and> dob_inv st1 \<and> dob_inv st2 \<and> dob_inv st3
      \<and> parse_dob_comprehensive cy now (Some raw) = Inr st3"
proof -
  have i0: "dob_inv (None, ''Unknown/Failed'')" by (simp add: dob_inv_def)
  obtain st1 where s1: "dob_try_full cy now (strip raw) (None, ''Unknown/Failed'') = Inr st1" and i1: "dob_inv st1"
    using dob_try_full_total[OF i0, of cy now "strip raw"] by (cases "dob_try_full cy now (strip raw) (None, ''Unknown/Failed'')") simp_all
  obtain st2 where s2: "dob_try_month cy (strip raw) st1 = Inr st2" and i2: "dob_inv st2"
    using dob_try_month_total[OF i1, of cy "strip raw"] by (cases "dob_try_month cy (strip raw) st1") simp_all
  obtain st3 where s3: "dob_try_year cy (strip raw) st2 = Inr st3" and i3: "dob_inv st3"
    using dob_try_year_total[OF i2, of cy "strip raw"] by (cases "dob_try_year cy (strip raw) st2") simp_all
  have "(if fst st3 = None \<and> snd st3 = ''Unknown/Failed'' then (fst st3, ''Unknown/Failed'') else st3) = st3"
    by (cases st3) simp
  then have "parse_dob_comprehensive cy now (Some raw) = Inr st3"
    using assms s1 s2 s3 
    by (simp add: parse_dob_comprehensive_def bind_err_def Let_def)
  with s1 s2 s3 i1 i2 i3 show ?thesis by blast
qed

lemma parse_dob_inv:
  "\<exists>st. parse_dob_comprehensive cy now cell = Inr st \<and> (st = (None, ''Missing'') \<or> dob_inv st)"
proof (cases cell)
  case None
  then show ?thesis by (simp add: parse_dob_comprehensive_def)
next
  case (Some raw)
  show ?thesis
  proof (cases "lower (strip raw) = ''nan''")
    case True
    with Some show ?thesis by (simp add: parse_dob_comprehensive_def)
  next
    case False
    from parse_dob_steps[OF False, of cy] Some show ?thesis by blast
  qed
qed

lemma digit_value: "isdigit c \<Longrightarrow> 0 \<le> int (of_char c) - 48 \<and> int (of_char c) - 48 \<le> 9"
  by (simp add: isdigit_def Let_def)

lemma int_of_digits_4:
  assumes "length y = 4" "list_all isdigit y"
  shows "0 \<le> int_of_digits y \<and> int_of_digits y \<le> 9999"
proof -
  from assms(1) obtain a b c d where y: "y = [a, b, c, d]"
    by (cases y; cases "tl y"; cases "tl (tl y)"; cases "tl (tl (tl y))") auto
  from assms(2) y have "isdigit a" "isdigit b" "isdigit c" "isdigit d" by simp_all
  then show ?thesis
    using digit_value[of a] digit_value[of b] digit_value[of c] digit_value[of d]
    by (simp add: y int_of_digits_def)
qed

lemma strptime_dmy_nat_strings: "strptime_dmy [] = None" "s \<in> set nat_strings \<Longrightarrow> strptime_dmy s = None"
proof -
  show "strptime_dmy [] = None" by (simp add: strptime_dmy_def)
  have "list_all (\<lambda>s. strptime_dmy s = None) nat_strings" by code_simp
  then show "s \<in> set nat_strings \<Longrightarrow> strptime_dmy s = None" by (simp add: list_all_iff)
qed

lemma strptime_dmy_now: "strptime_dmy ''now'' = None" "strptime_dmy ''today'' = None"
  by code_simp+

lemma strptime_dmy_not_now: "strptime_dmy t = Some d \<Longrightarrow> t \<noteq> ''now'' \<and> t \<noteq> ''today''"
  using strptime_dmy_now by (cases "t = ''now''"; cases "t = ''today''"; simp)

lemma to_datetime_Some_iff:
  assumes "t \<noteq> ''now''" "t \<noteq> ''today''"
  shows "to_datetime now t = Inr (Some d) \<longleftrightarrow> strptime_dmy t = Some d"
proof (cases "t = [] \<or> t \<in> set nat_strings")
  case True
  then have "strptime_dmy t = None" using strptime_dmy_nat_strings by blast
  with True show ?thesis by (simp add: to_datetime_def)
next
  case False
  have "to_datetime now t = (case strptime_dmy t of None \<Rightarrow> Inl ValueError | Some t \<Rightarrow> Inr (Some t))"
    unfolding to_datetime_def using False assms by simp
  then show ?thesis by (cases "strptime_dmy t") simp_all
qed


lemma dob_try_full_hit:
  assumes "full_date_rule cy t d"
  shows "dob_try_full cy now t st = Inr (Some d, ''Full Date'')"
proof -
  from assms have p: "strptime_dmy t = Some d" by (simp add: full_date_rule_def)
  from strptime_dmy_not_now[OF p] have "t \<noteq> ''now''" "t \<noteq> ''today''" by simp_all
  then have "to_datetime now t = Inr (Some d)" using p by (simp add: to_datetime_Some_iff)
  with assms show ?thesis by (simp add: dob_try_full_def full_date_rule_def)
qed


lemma dob_try_full_zero_day: "prefix ''00/'' t \<Longrightarrow> dob_try_full cy now t st = Inr st"
  by (simp add: dob_try_full_def)

lemma days_in_month_ge: "1 \<le> days_in_month y m"
  by (simp add: days_in_month_def)

lemma dob_try_month_hit:
  assumes "month_year_rule cy t mm yyyy"
  shows "dob_try_month cy t (None, p) =
     Inr (Some \<lparr>ts_year = int_of_digits yyyy, ts_month = int_of_digits mm, ts_day = 1\<rparr>, ''Month/Year Only'')"
proof -
  from assms have f: "is_00_mm_yyyy t mm yyyy" and r: "1 \<le> int_of_digits mm" "int_of_digits mm \<le> 12"
      "1900 \<le> int_of_digits yyyy" "int_of_digits yyyy \<le> cy"
    by (simp_all add: month_year_rule_def)
  have m: "re_match pattern_00_mm t = Some [mm, yyyy]" by (rule re_match_00_mm_complete[OF f])
  from f have "int_of_digits yyyy \<le> 9999" using int_of_digits_4[of yyyy] by (simp add: is_00_mm_yyyy_def)
  with r have "valid_date (int_of_digits yyyy) (int_of_digits mm) 1"
    using days_in_month_ge[of "int_of_digits yyyy" "int_of_digits mm"] by (simp add: valid_date_def)
  then have "Timestamp (int_of_digits yyyy) (int_of_digits mm) 1 =
      Inr \<lparr>ts_year = int_of_digits yyyy, ts_month = int_of_digits mm, ts_day = 1\<rparr>"
    by (simp add: Timestamp_def)
  with m r show ?thesis by (simp add: dob_try_month_def Let_def)
qed

lemma dob_try_month_miss:
  assumes "\<forall>mm yyyy. \<not> month_year_rule cy t mm yyyy" "t = [] \<or> \<not> isspace (last t)"
  shows "dob_try_month cy t st = Inr st"
proof (cases "fst st = None")
  case False
  then show ?thesis unfolding dob_try_month_def by (rule if_not_P)
next
  case True
  show ?thesis
  proof (cases "re_match pattern_00_mm t")
    case None
    with True show ?thesis by (simp add: dob_try_month_def)
  next
    case (Some gs)
    from re_match_00_mm_sound[OF Some assms(2)] obtain mm yyyy where
      g: "gs = [mm, yyyy]" "is_00_mm_yyyy t mm yyyy" by blast
    with assms(1) have "\<not> (1 \<le> int_of_digits mm \<and> int_of_digits mm \<le> 12
      \<and> 1900 \<le> int_of_digits yyyy \<and> int_of_digits yyyy \<le> cy)"
      by (simp add: month_year_rule_def)
    with Some True g(1) show ?thesis by (auto simp: dob_try_month_def Let_def)
  qed
qed

lemma dob_try_year_hit:
  assumes "year_rule cy t yyyy"
  shows "dob_try_year cy t (None, p) =
     Inr (Some \<lparr>ts_year = int_of_digits yyyy, ts_month = 1, ts_day = 1\<rparr>, ''Year Only'')"
proof -
  from assms have f: "is_00_00_yyyy t yyyy" and r: "1900 \<le> int_of_digits yyyy" "int_of_digits yyyy \<le> cy"
    by (simp_all add: year_rule_def)
  have m: "re_match pattern_00_00 t = Some [yyyy]" by (rule re_match_00_00_complete[OF f])
  from f have "int_of_digits yyyy \<le> 9999" using int_of_digits_4[of yyyy] by (simp add: is_00_00_yyyy_def)
  with r have "valid_date (int_of_digits yyyy) 1 1"
    by (simp add: valid_date_def days_in_month_def)
  then have "Timestamp (int_of_digits yyyy) 1 1 = Inr \<lparr>ts_year = int_of_digits yyyy, ts_month = 1, ts_day = 1\<rparr>"
    by (simp add: Timestamp_def)
  with m r show ?thesis by (simp add: dob_try_year_def Let_def)
qed


lemma dob_try_month_skip: "dob_try_month cy t (Some d, p) = Inr (Some d, p)"
  by (simp add: dob_try_month_def)

lemma dob_try_year_skip: "dob_try_year cy t (Some d, p) = Inr (Some d, p)"
  by (simp add: dob_try_year_def)

lemma parse_dob_chain:
  assumes "lower (strip raw) \<noteq> ''nan''"
    "dob_try_full cy now (strip raw) (None, ''Unknown/Failed'') = Inr st1"
    "dob_try_month cy (strip raw) st1 = Inr st2"
    "dob_try_year cy (strip raw) st2 = Inr st3"
  shows "parse_dob_comprehensive cy now (Some raw) = Inr st3"
proof -
  have "(if fst st3 = None \<and> snd st3 = ''Unknown/Failed'' then (fst st3, ''Unknown/Failed'') else st3) = st3"
    by (cases st3) simp
  then show ?thesis using assms by (simp add: parse_dob_comprehensive_def bind_err_def Let_def)
qed

lemma zero_day_prefix_mm: "is_00_mm_yyyy t mm yyyy \<Longrightarrow> prefix ''00/'' t"
  by (simp add: is_00_mm_yyyy_def)

lemma zero_day_prefix_00: "is_00_00_yyyy t yyyy \<Longrightarrow> prefix ''00/'' t"
  by (simp add: is_00_00_yyyy_def)

lemma zero_month_form: "is_00_00_yyyy t yyyy \<Longrightarrow> is_00_mm_yyyy t ''00'' yyyy"
  by (simp add: is_00_00_yyyy_def is_00_mm_yyyy_def isdigit_def)

lemma is_00_mm_yyyy_unique:
  assumes "is_00_mm_yyyy t a b" "is_00_mm_yyyy t mm yyyy" shows "a = mm \<and> b = yyyy"
proof -
  from assms have "a @ CHR ''/'' # b = mm @ CHR ''/'' # yyyy" "list_all isdigit a" "list_all isdigit mm"
    by (simp_all add: is_00_mm_yyyy_def)
  then show ?thesis using digits_split_unique[of isdigit a mm "CHR ''/''" b yyyy] slash_not_digit by simp
qed

lemma year_rule_no_month_rule:
  assumes "year_rule cy t yyyy" shows "\<not> month_year_rule cy t a b"
proof
  assume "month_year_rule cy t a b"
  then have f: "is_00_mm_yyyy t a b" and r: "1 \<le> int_of_digits a" by (simp_all add: month_year_rule_def)
  from assms have "is_00_mm_yyyy t ''00'' yyyy" by (simp add: year_rule_def zero_month_form)
  with f have "a = ''00''" using is_00_mm_yyyy_unique by blast
  with r show False by (simp add: int_of_digits_def)
qed

text \<open>
  White space is Python's: a date followed by a no-break space is trimmed and parsed.
\<close>

lemma parse_dob_no_break_space:
  "parse_dob_comprehensive 2026 example_now (Some (''15/06/1980'' @ [CHR 0xA0])) =
     Inr (Some \<lparr>ts_year = 1980, ts_month = 6, ts_day = 15\<rparr>, ''Full Date'')"
  by code_simp

text \<open>
  Claim C4. For an input that is neither missing nor the text \<open>nan\<close>, the rules are tried in
  order on the trimmed text and the first that applies decides: a text that does not start
  with \<open>00/\<close> and parses as day/month/year with the year from 1900 to the current year
  gives that date with \<open>Full Date\<close>; the form \<open>00/MM/YYYY\<close> with the month from 1 to 12 and
  the year in range gives the first day of that month with \<open>Month/Year Only\<close>; the form
  \<open>00/00/YYYY\<close> with the year in range gives the first of January with \<open>Year Only\<close>.
\<close>

theorem dob_rules_in_order:
  assumes "lower (strip raw) \<noteq> ''nan''"
  shows "(full_date_rule cy (strip raw) d \<longrightarrow>
            parse_dob_comprehensive cy now (Some raw) = Inr (Some d, ''Full Date''))
       \<and> (month_year_rule cy (strip raw) mm yyyy \<longrightarrow>
            parse_dob_comprehensive cy now (Some raw) =
              Inr (Some \<lparr>ts_year = int_of_digits yyyy, ts_month = int_of_digits mm, ts_day = 1\<rparr>,
                   ''Month/Year Only''))
       \<and> (year_rule cy (strip raw) yy \<longrightarrow>
            parse_dob_comprehensive cy now (Some raw) =
              Inr (Some \<lparr>ts_year = int_of_digits yy, ts_month = 1, ts_day = 1\<rparr>, ''Year Only''))"
proof (intro conjI impI)
  assume r: "full_date_rule cy (strip raw) d"
  show "parse_dob_comprehensive cy now (Some raw) = Inr (Some d, ''Full Date'')"
    by (rule parse_dob_chain[OF assms dob_try_full_hit[OF r] dob_try_month_skip dob_try_year_skip])
next
  assume r: "month_year_rule cy (strip raw) mm yyyy"
  then have z: "prefix ''00/'' (strip raw)"
    using zero_day_prefix_mm[of "strip raw" mm yyyy] by (simp add: month_year_rule_def)
  show "parse_dob_comprehensive cy now (Some raw) =
      Inr (Some \<lparr>ts_year = int_of_digits yyyy, ts_month = int_of_digits mm, ts_day = 1\<rparr>, ''Month/Year Only'')"
    by (rule parse_dob_chain[OF assms dob_try_full_zero_day[OF z] dob_try_month_hit[OF r] dob_try_year_skip])
next
  assume r: "year_rule cy (strip raw) yy"
  then have z: "prefix ''00/'' (strip raw)"
    using zero_day_prefix_00[of "strip raw" yy] by (simp add: year_rule_def)
  have m: "\<forall>a b. \<not> month_year_rule cy (strip raw) a b" using year_rule_no_month_rule[OF r] by simp
  show "parse_dob_comprehensive cy now (Some raw) =
      Inr (Some \<lparr>ts_year = int_of_digits yy, ts_month = 1, ts_day = 1\<rparr>, ''Year Only'')"
    by (rule parse_dob_chain[OF assms dob_try_full_zero_day[OF z]
          dob_try_month_miss[OF m strip_no_trailing_space] dob_try_year_hit[OF r]])
qed

theorem dob_rules_in_order_witness:
  "parse_dob_comprehensive 2026 example_now (Some ''15/06/1980'') =
      Inr (Some \<lparr>ts_year = 1980, ts_month = 6, ts_day = 15\<rparr>, ''Full Date'')
   \<and> parse_dob_comprehensive 2026 example_now (Some ''00/06/1980'') =
      Inr (Some \<lparr>ts_year = 1980, ts_month = 6, ts_day = 1\<rparr>, ''Month/Year Only'')
   \<and> parse_dob_comprehensive 2026 example_now (Some ''00/00/1980'') =
      Inr (Some \<lparr>ts_year = 1980, ts_month = 1, ts_day = 1\<rparr>, ''Year Only'')"
proof -
  have n1: "lower (strip ''15/06/1980'') \<noteq> ''nan''" by code_simp
  have n2: "lower (strip ''00/06/1980'') \<noteq> ''nan''" by code_simp
  have n3: "lower (strip ''00/00/1980'') \<noteq> ''nan''" by code_simp
  have r1: "full_date_rule 2026 (strip ''15/06/1980'') \<lparr>ts_year = 1980, ts_month = 6, ts_day = 15\<rparr>"
    by code_simp
  have r2: "month_year_rule 2026 (strip ''00/06/1980'') ''06'' ''1980''" by code_simp
  have r3: "year_rule 2026 (strip ''00/00/1980'') ''1980''" by code_simp
  have v: "int_of_digits ''1980'' = 1980" "int_of_digits ''06'' = 6" by code_simp+
  note a = dob_rules_in_order[where cy = 2026 and d = "\<lparr>ts_year = 1980, ts_month = 6, ts_day = 15\<rparr>",
      OF n1, THEN conjunct1, THEN mp, OF r1]
  note b = dob_rules_in_order[where cy = 2026 and mm = "''06''" and yyyy = "''1980''",
      OF n2, THEN conjunct2, THEN conjunct1, THEN mp, OF r2]
  note c = dob_rules_in_order[where cy = 2026 and yy = "''1980''",
      OF n3, THEN conjunct2, THEN conjunct2, THEN mp, OF r3]
  from a b c show ?thesis unfolding v by (intro conjI)
qed

text \<open>
  Claim C5, as the code has it. A missing input, and a text that is \<open>nan\<close> once trimmed and
  lower-cased, give no date and \<open>Missing\<close>. The empty text is not caught by that test: it
  gives no date and \<open>Unknown/Failed\<close>.
\<close>

theorem dob_missing:
  "parse_dob_comprehensive cy now None = Inr (None, ''Missing'')
   \<and> (lower (strip raw) = ''nan'' \<longrightarrow> parse_dob_comprehensive cy now (Some raw) = Inr (None, ''Missing''))
   \<and> parse_dob_comprehensive cy now (Some '''') = Inr (None, ''Unknown/Failed'')"
proof (intro conjI impI)
  show "parse_dob_comprehensive cy now None = Inr (None, ''Missing'')"
    by (simp add: parse_dob_comprehensive_def)
  show "parse_dob_comprehensive cy now (Some raw) = Inr (None, ''Missing'')" if "lower (strip raw) = ''nan''"
    using that by (simp add: parse_dob_comprehensive_def)
  have s: "strip '''' = ''''" by (simp add: strip_def lstrip_def rstrip_def)
  have n: "lower (strip '''') \<noteq> ''nan''" by (simp add: s lower_def)
  have 1: "dob_try_full cy now (strip '''') (None, ''Unknown/Failed'') = Inr (None, ''Unknown/Failed'')"
    by (simp add: s dob_try_full_def to_datetime_def)
  have "pattern_00_mm ([], '''') = []" by code_simp
  then have 2: "dob_try_month cy (strip '''') (None, ''Unknown/Failed'') = Inr (None, ''Unknown/Failed'')"
    by (simp add: s dob_try_month_def re_match_def)
  have "pattern_00_00 ([], '''') = []" by code_simp
  then have 3: "dob_try_year cy (strip '''') (None, ''Unknown/Failed'') = Inr (None, ''Unknown/Failed'')"
    by (simp add: s dob_try_year_def re_match_def)
  show "parse_dob_comprehensive cy now (Some '''') = Inr (None, ''Unknown/Failed'')"
    by (rule parse_dob_chain[OF n 1 2 3])
qed

theorem dob_missing_witness:
  "lower (strip '' NaN '') = ''nan'' \<and> parse_dob_comprehensive 2026 example_now (Some '' NaN '') = Inr (None, ''Missing'')"
proof -
  have h: "lower (strip '' NaN '') = ''nan''" by code_simp
  from dob_missing[of 2026 example_now "'' NaN ''"] have
    "lower (strip '' NaN '') = ''nan'' \<longrightarrow> parse_dob_comprehensive 2026 example_now (Some '' NaN '') = Inr (None, ''Missing'')"
    by (elim conjE)
  then have "parse_dob_comprehensive 2026 example_now (Some '' NaN '') = Inr (None, ''Missing'')" using h by (rule mp)
  with h show ?thesis by (intro conjI)
qed

text \<open>The empty text is not reported as \<open>Missing\<close>.\<close>

theorem dob_empty_string_counterexample:
  "parse_dob_comprehensive 2026 example_now (Some '''') \<noteq> Inr (None, ''Missing'')"
  by code_simp






text \<open>
  Claim C10. The date is present exactly when the label is \<open>Full Date\<close>,
  \<open>Month/Year Only\<close> or \<open>Year Only\<close>, it is absent exactly when the label is \<open>Missing\<close>
  or \<open>Unknown/Failed\<close>, and no other label is ever returned.
\<close>

theorem dob_precision_invariant:
  "\<exists>d p. parse_dob_comprehensive cy now cell = Inr (d, p)
     \<and> (d \<noteq> None \<longleftrightarrow> p \<in> {''Full Date'', ''Month/Year Only'', ''Year Only''})
     \<and> (d = None \<longleftrightarrow> p \<in> {''Missing'', ''Unknown/Failed''})
     \<and> p \<in> {''Full Date'', ''Month/Year Only'', ''Year Only'', ''Missing'', ''Unknown/Failed''}"
proof -
  obtain st where a: "parse_dob_comprehensive cy now cell = Inr st" and b: "st = (None, ''Missing'') \<or> dob_inv st"
    using parse_dob_inv by blast
  obtain d p where st: "st = (d, p)" by (cases st)
  from b have c: "(d = None \<and> p = ''Missing'') \<or> (d = None \<and> p = ''Unknown/Failed'')
      \<or> (d \<noteq> None \<and> p = ''Full Date'') \<or> (d \<noteq> None \<and> p = ''Month/Year Only'')
      \<or> (d \<noteq> None \<and> p = ''Year Only'')"
    unfolding st dob_inv_def fst_conv snd_conv by (cases d; simp)
  have h1: "(d \<noteq> None \<longleftrightarrow> p \<in> {''Full Date'', ''Month/Year Only'', ''Year Only''})"
    using c by (elim disjE conjE) simp_all
  have h2: "(d = None \<longleftrightarrow> p \<in> {''Missing'', ''Unknown/Failed''})"
    using c by (elim disjE conjE) simp_all
  have h3: "p \<in> {''Full Date'', ''Month/Year Only'', ''Year Only'', ''Missing'', ''Unknown/Failed''}"
    using c by (elim disjE conjE) simp_all
  from a have a': "parse_dob_comprehensive cy now cell = Inr (d, p)" unfolding st .
  show ?thesis
    apply (rule exI[of _ d])
    apply (rule exI[of _ p])
    using a' h1 h2 h3 by (intro conjI)
qed

theorem dob_precision_invariant_witness:
  "\<exists>d p. parse_dob_comprehensive 2026 example_now (Some ''00/06/1980'') = Inr (d, p)
     \<and> (d \<noteq> None \<longleftrightarrow> p \<in> {''Full Date'', ''Month/Year Only'', ''Year Only''})
     \<and> (d = None \<longleftrightarrow> p \<in> {''Missing'', ''Unknown/Failed''})
     \<and> p \<in> {''Full Date'', ''Month/Year Only'', ''Year Only'', ''Missing'', ''Unknown/Failed''}"
  by (rule dob_precision_invariant)

section \<open>Properties of the field aggregator\<close>

lemma set_unique: "set (unique xs) = set xs" by (simp add: unique_def)
lemma distinct_unique: "distinct (unique xs)" by (simp add: unique_def)

lemma mset_unique_cong: "set xs = set ys \<Longrightarrow> mset (unique xs) = mset (unique ys)"
  by (simp add: set_eq_iff_mset_eq_distinct[symmetric] set_unique distinct_unique)

lemma mset_dropna: "mset xs = mset ys \<Longrightarrow> mset (dropna xs) = mset (dropna ys)"
proof -
  have "mset (dropna zs) = image_mset the (filter_mset (\<lambda>c. c \<noteq> None) (mset zs))" for zs :: "'a option list"
    by (induction zs) (auto simp: dropna_def)
  then show "mset xs = mset ys \<Longrightarrow> mset (dropna xs) = mset (dropna ys)" by simp
qed

lemma sort_mset_cong: "mset xs = mset ys \<Longrightarrow> sort xs = sort (ys :: 'a::linorder list)"
  by (rule properties_for_sort) simp_all

lemma valid_vals_filtered_mset:
  assumes "mset xs = mset ys"
  shows "mset (valid_vals_filtered str xs) = mset (valid_vals_filtered str ys)"
proof -
  have "set (dropna xs) = set (dropna ys)" using mset_dropna[OF assms] by (metis set_mset_mset)
  then have "mset (unique (dropna xs)) = mset (unique (dropna ys))" by (rule mset_unique_cong)
  then show ?thesis unfolding valid_vals_filtered_def Let_def by (metis mset_filter mset_map)
qed

lemma gusl_order_independent:
  assumes "mset xs = mset ys"
  shows "get_unique_sorted_list str xs = get_unique_sorted_list str ys"
proof -
  note m = valid_vals_filtered_mset[OF assms, of str]
  have "sort (valid_vals_filtered str xs) = sort (valid_vals_filtered str ys)"
    using m by (rule sort_mset_cong)
  moreover have "length (valid_vals_filtered str xs) = length (valid_vals_filtered str ys)"
    using m by (metis size_mset)
  ultimately show ?thesis unfolding get_unique_sorted_list_def Let_def by simp
qed

lemma gusl_not_empty: "get_unique_sorted_list str xs \<noteq> Some []"
  by (cases "valid_vals_filtered str xs") (simp_all add: get_unique_sorted_list_def Let_def)

lemma dropna_all_None: "(\<forall>x\<in>set xs. x = None) \<Longrightarrow> dropna xs = []"
  by (induction xs) (auto simp: dropna_def)

lemma gusl_all_null: "(\<forall>x\<in>set xs. x = None) \<Longrightarrow> get_unique_sorted_list str xs = None"
  by (simp add: get_unique_sorted_list_def valid_vals_filtered_def dropna_all_None unique_def)

lemma valid_vals_filtered_distinct:
  "inj_on str (set (dropna xs)) \<Longrightarrow> distinct (valid_vals_filtered str xs)"
  by (simp add: valid_vals_filtered_def Let_def distinct_map distinct_unique set_unique)

lemma valid_vals_filtered_set:
  "set (valid_vals_filtered str xs) =
     {v \<in> str ` set (dropna xs). lower (strip v) \<notin> set null_sentinels}"
  by (auto simp: valid_vals_filtered_def Let_def set_unique)

lemma gusl_spec:
  assumes "inj_on str (set (dropna xs))"
  shows "get_unique_sorted_list str xs = field_aggregator_spec str xs"
proof -
  define a where "a = valid_vals_filtered str xs"
  define b where "b = remdups (filter (\<lambda>val. lower (strip val) \<notin> set null_sentinels) (map str (dropna xs)))"
  have da: "distinct a" unfolding a_def by (rule valid_vals_filtered_distinct[OF assms])
  have db: "distinct b" by (simp add: b_def)
  have "set a = set b" unfolding a_def b_def valid_vals_filtered_set by auto
  with da db have m: "mset a = mset b" by (simp add: set_eq_iff_mset_eq_distinct)
  then have "sort a = sort b" by (rule sort_mset_cong)
  moreover have "(length a > 0) = (b \<noteq> [])" using m by (metis length_greater_0_conv mset_zero_iff)
  ultimately have "(if length a > 0 then Some (sort a) else None) = (if b = [] then None else Some (sort b))"
    by simp
  then show ?thesis
    unfolding get_unique_sorted_list_def field_aggregator_spec_def Let_def a_def b_def .
qed

lemma dropna_map_Some: "dropna (map Some r) = r"
  by (induction r) (simp_all add: dropna_def)

lemma unique_distinct_id: "distinct r \<Longrightarrow> unique r = r"
  by (simp add: unique_def distinct_remdups_id)

lemma gusl_idempotent:
  assumes "inj_on str (set (dropna xs))" "get_unique_sorted_list str xs = Some r"
  shows "get_unique_sorted_list (\<lambda>s. s) (map Some r) = Some r"
proof -
  define a where "a = valid_vals_filtered str xs"
  from assms(2) have r: "r = sort a" and ne: "a \<noteq> []"
    unfolding get_unique_sorted_list_def Let_def a_def[symmetric] by (simp_all split: if_splits)
  have da: "distinct a" unfolding a_def by (rule valid_vals_filtered_distinct[OF assms(1)])
  then have dr: "distinct r" by (simp add: r)
  have "\<forall>v\<in>set a. lower (strip v) \<notin> set null_sentinels" unfolding a_def valid_vals_filtered_set by simp
  then have allP: "\<forall>v\<in>set r. lower (strip v) \<notin> set null_sentinels" by (simp add: r)
  have f: "valid_vals_filtered (\<lambda>s. s) (map Some r) = r"
    using allP by (simp add: valid_vals_filtered_def Let_def dropna_map_Some unique_distinct_id[OF dr])
  have s: "sort r = r" by (simp add: r sorted_sort_id)
  from ne have "r \<noteq> []" by (metis r length_sort length_0_conv)
  then show ?thesis
    unfolding get_unique_sorted_list_def Let_def f using s by simp
qed

text \<open>The sentinel \<open>nan\<close> is dropped behind a no-break space as well.\<close>

lemma gusl_no_break_space:
  "get_unique_sorted_list (\<lambda>s. s) [Some ([CHR 0xA0] @ ''nan''), Some ''a''] = Some [''a'']"
  by code_simp

text \<open>
  Claim C3, as the code has it. \<open>get_unique_sorted_list\<close> gives the same result on every
  permutation of a collection, never returns an empty list, and gives null for a collection
  with nulls only. (The string form is a function of the value: two values that \<open>unique\<close>
  takes for the same have the same string form.) The code removes the duplicates before it
  stringifies, so it is the aggregator of the specification (drop nulls, stringify, drop the
  null sentinels, deduplicate, sort), and aggregating its result again returns that result,
  on the collections in which no two different values have the same string form, such as
  every collection of texts. The collections \<open>["b","a","a","nan"]\<close> and \<open>["a","b"]\<close> both
  give \<open>["a","b"]\<close>.
\<close>

theorem field_aggregator_order_independent_idempotent:
  "(mset xs = mset ys \<longrightarrow> get_unique_sorted_list str xs = get_unique_sorted_list str ys)
   \<and> (inj_on str (set (dropna xs)) \<longrightarrow> get_unique_sorted_list str xs = field_aggregator_spec str xs)
   \<and> (inj_on str (set (dropna xs)) \<and> get_unique_sorted_list str xs = Some r \<longrightarrow>
        get_unique_sorted_list (\<lambda>s. s) (map Some r) = Some r)
   \<and> get_unique_sorted_list str xs \<noteq> Some []
   \<and> ((\<forall>x\<in>set xs. x = None) \<longrightarrow> get_unique_sorted_list str xs = None)
   \<and> get_unique_sorted_list (\<lambda>s. s) [Some ''b'', Some ''a'', Some ''a'', Some ''nan''] = Some [''a'', ''b'']
   \<and> get_unique_sorted_list (\<lambda>s. s) [Some ''a'', Some ''b''] = Some [''a'', ''b'']"
proof (intro conjI impI)
  show "get_unique_sorted_list str xs = get_unique_sorted_list str ys" if "mset xs = mset ys"
    using that by (rule gusl_order_independent)
  show "get_unique_sorted_list str xs = field_aggregator_spec str xs" if "inj_on str (set (dropna xs))"
    using that by (rule gusl_spec)
  show "get_unique_sorted_list (\<lambda>s. s) (map Some r) = Some r"
    if "inj_on str (set (dropna xs)) \<and> get_unique_sorted_list str xs = Some r"
    using that gusl_idempotent[of str xs r] by simp
  show "get_unique_sorted_list str xs \<noteq> Some []" by (rule gusl_not_empty)
  show "get_unique_sorted_list str xs = None" if "\<forall>x\<in>set xs. x = None"
    using that by (rule gusl_all_null)
  show "get_unique_sorted_list (\<lambda>s. s) [Some ''b'', Some ''a'', Some ''a'', Some ''nan''] = Some [''a'', ''b'']"
    by code_simp
  show "get_unique_sorted_list (\<lambda>s. s) [Some ''a'', Some ''b''] = Some [''a'', ''b'']"
    by code_simp
qed

theorem field_aggregator_witness:
  "get_unique_sorted_list (\<lambda>s. s) [Some ''b'', Some ''a'', Some ''a'', Some ''nan'']
     = get_unique_sorted_list (\<lambda>s. s) [Some ''a'', Some ''nan'', Some ''b'', Some ''a'']
   \<and> get_unique_sorted_list (\<lambda>s. s) (map Some [''a'', ''b'']) = Some [''a'', ''b'']
   \<and> get_unique_sorted_list (\<lambda>s. s) [None, None] = None"
proof -
  let ?xs = "[Some ''b'', Some ''a'', Some ''a'', Some ''nan'']"
  let ?ys = "[Some ''a'', Some ''nan'', Some ''b'', Some ''a'']"
  note t = field_aggregator_order_independent_idempotent[where str = "\<lambda>s. s"]
  have p: "mset ?xs = mset ?ys" by simp
  have i: "inj_on (\<lambda>s::string. s) (set (dropna ?xs))" by simp
  have v: "get_unique_sorted_list (\<lambda>s. s) ?xs = Some [''a'', ''b'']" by code_simp
  have n: "\<forall>x\<in>set [None, None :: string option]. x = None" by simp
  note a = t[where xs = ?xs and ys = ?ys, THEN conjunct1, THEN mp, OF p]
  note b = t[where xs = ?xs and r = "[''a'', ''b'']", THEN conjunct2, THEN conjunct2, THEN conjunct1, THEN mp,
      OF conjI[OF i v]]
  note c = t[where xs = "[None, None]", THEN conjunct2, THEN conjunct2, THEN conjunct2, THEN conjunct2,
      THEN conjunct1, THEN mp, OF n]
  from a b c show ?thesis by (intro conjI)
qed

text \<open>
  In the collection \<open>["a", 1, "1"]\<close> the integer and the text have the same string form:
  both stay, the result \<open>["1","1","a"]\<close> is not deduplicated, the aggregator of the
  specification gives \<open>["1","a"]\<close>, and so does aggregating the result again.
\<close>

theorem field_aggregator_mixed_values_counterexample:
  "get_unique_sorted_list py_str [Some (PyStr ''a''), Some (PyInt 1), Some (PyStr ''1'')] = Some [''1'', ''1'', ''a'']
   \<and> field_aggregator_spec py_str [Some (PyStr ''a''), Some (PyInt 1), Some (PyStr ''1'')] = Some [''1'', ''a'']
   \<and> get_unique_sorted_list (\<lambda>s. s) (map Some [''1'', ''1'', ''a'']) = Some [''1'', ''a'']"
  by code_simp

section \<open>Properties of the country standardization\<close>

lemma has_delim_append_last:
  "has_delim (xs @ [c]) \<longleftrightarrow> has_delim xs \<or> (xs \<noteq> [] \<and> last xs = CHR '';'' \<and> c = CHR '' '')"
  by (induction xs rule: has_delim.induct) auto

lemma has_delim_Cons: "has_delim r \<Longrightarrow> has_delim (c # r)"
  by (cases r) simp_all

lemma has_delim_append_left: "has_delim xs \<Longrightarrow> has_delim (xs @ ys)"
  by (induction xs rule: has_delim.induct) auto

lemma has_delim_append_right: "has_delim ys \<Longrightarrow> has_delim (xs @ ys)"
  by (induction xs) (simp_all add: has_delim_Cons)

lemma has_delim_appendI: "has_delim xs \<or> has_delim ys \<Longrightarrow> has_delim (xs @ ys)"
  using has_delim_append_left has_delim_append_right by blast

lemma has_delim_take: "has_delim (take n xs) \<Longrightarrow> has_delim xs"
  using has_delim_appendI[of "take n xs" "drop n xs"] by simp

lemma has_delim_drop: "has_delim (drop n xs) \<Longrightarrow> has_delim xs"
  using has_delim_appendI[of "take n xs" "drop n xs"] by simp

lemma has_delim_dropWhile: "has_delim (dropWhile P xs) \<Longrightarrow> has_delim xs"
  using has_delim_appendI[of "takeWhile P xs" "dropWhile P xs"] by simp

lemma rstrip_take: "rstrip xs = take (length (rstrip xs)) xs"
proof -
  have "rev xs = takeWhile isspace (rev xs) @ dropWhile isspace (rev xs)" by simp
  then have "xs = rev (dropWhile isspace (rev xs)) @ rev (takeWhile isspace (rev xs))"
    by (metis rev_append rev_rev_ident)
  then show ?thesis unfolding rstrip_def by (metis append_eq_conv_conj)
qed

lemma has_delim_strip: "has_delim (strip t) \<Longrightarrow> has_delim t"
proof -
  assume "has_delim (strip t)"
  then have "has_delim (take (length (rstrip (lstrip t))) (lstrip t))"
    unfolding strip_def using rstrip_take[of "lstrip t"] by simp
  then have "has_delim (lstrip t)" by (rule has_delim_take)
  then show "has_delim t" unfolding lstrip_def by (rule has_delim_dropWhile)
qed

lemma prefix_delim: "prefix ''; '' (c # cs) \<longleftrightarrow> c = CHR '';'' \<and> cs \<noteq> [] \<and> hd cs = CHR '' ''"
  by (cases cs) auto

lemma split_acc_tokens:
  assumes "\<not> has_delim (rev acc)" "\<not> (acc \<noteq> [] \<and> hd acc = CHR '';'' \<and> s \<noteq> [] \<and> hd s = CHR '' '')"
  shows "\<forall>t \<in> set (split_acc ''; '' acc s). \<not> has_delim t"
  using assms
proof (induction "''; ''" acc s rule: split_acc.induct)
  case (1 acc)
  then show ?case by simp
next
  case (2 acc c cs)
  show ?case
  proof (cases "prefix ''; '' (c # cs)")
    case True
    then have "\<forall>t \<in> set (split_acc ''; '' [] (drop (length ''; '' - 1) cs)). \<not> has_delim t"
      by (intro "2.hyps"(1)) simp_all
    moreover have "''; '' \<noteq> [] \<and> prefix ''; '' (c # cs)" using True by blast
    then have "split_acc ''; '' acc (c # cs) = rev acc # split_acc ''; '' [] (drop (length ''; '' - 1) cs)"
      by (subst split_acc.simps(2)) (rule if_P)
    ultimately show ?thesis using "2.prems"(1) by simp
  next
    case False
    have a: "\<not> has_delim (rev (c # acc))"
      using "2.prems" by (auto simp: has_delim_append_last last_rev)
    have b: "\<not> (c # acc \<noteq> [] \<and> hd (c # acc) = CHR '';'' \<and> cs \<noteq> [] \<and> hd cs = CHR '' '')"
      using False unfolding prefix_delim by simp
    have c: "\<not> (''; '' \<noteq> [] \<and> prefix ''; '' (c # cs))" using False by blast
    have eq: "split_acc ''; '' acc (c # cs) = split_acc ''; '' (c # acc) cs"
      by (subst split_acc.simps(2)) (rule if_not_P[OF c])
    show ?thesis unfolding eq by (rule "2.hyps"(2)[OF c a b])
  qed
qed

lemma split_tokens: "t \<in> set (split LIST_DELIMITER s) \<Longrightarrow> \<not> has_delim t"
  using split_acc_tokens[of "[]" s] by (simp add: split_def LIST_DELIMITER_def)

lemma split_acc_last:
  assumes "\<not> has_delim t"
  shows "split_acc ''; '' acc t = [rev acc @ t]"
  using assms
proof (induction t arbitrary: acc)
  case Nil
  then show ?case by simp
next
  case (Cons c cs)
  have np: "\<not> prefix ''; '' (c # cs)" using Cons.prems by (cases cs) auto
  have "\<not> has_delim cs" using Cons.prems by (cases cs) auto
  from Cons.IH[OF this, of "c # acc"] np show ?case by simp
qed

lemma split_acc_token_delim:
  assumes "\<not> has_delim t"
  shows "split_acc ''; '' acc (t @ ''; '' @ rest) = (rev acc @ t) # split_acc ''; '' [] rest"
  using assms
proof (induction t arbitrary: acc)
  case Nil
  then show ?case by simp
next
  case (Cons c cs)
  have np: "\<not> prefix ''; '' (c # cs @ ''; '' @ rest)" using Cons.prems by (cases cs) auto
  have "\<not> has_delim cs" using Cons.prems by (cases cs) auto
  from Cons.IH[OF this, of "c # acc"] np show ?case by simp
qed

lemma split_join:
  assumes "ts \<noteq> []" "\<forall>t \<in> set ts. \<not> has_delim t"
  shows "split LIST_DELIMITER (join LIST_DELIMITER ts) = ts"
  using assms
proof (induction ts)
  case Nil
  then show ?case by simp
next
  case (Cons p ps)
  have np: "\<not> has_delim p" using Cons.prems by simp
  show ?case
  proof (cases ps)
    case Nil
    with np show ?thesis by (simp add: split_def LIST_DELIMITER_def split_acc_last)
  next
    case (Cons q qs)
    with Cons.IH Cons.prems have "split LIST_DELIMITER (join LIST_DELIMITER ps) = ps" by simp
    then show ?thesis
      using split_acc_token_delim[OF np, of "[]" "join ''; '' ps"] Cons
      by (simp add: split_def LIST_DELIMITER_def)
  qed
qed

lemma dropWhile_id: "xs = [] \<or> \<not> P (hd xs) \<Longrightarrow> dropWhile P xs = xs"
  by (cases xs) auto

lemma lstrip_head: "lstrip s = [] \<or> \<not> isspace (hd (lstrip s))"
  unfolding lstrip_def using hd_dropWhile[of isspace s] by blast

lemma rstrip_last: "rstrip s = [] \<or> \<not> isspace (last (rstrip s))"
proof (cases "dropWhile isspace (rev s)")
  case Nil
  then show ?thesis by (simp add: rstrip_def)
next
  case (Cons c cs)
  then have "\<not> isspace c" using hd_dropWhile[of isspace "rev s"] by simp
  moreover have "last (rstrip s) = c" using Cons by (simp add: rstrip_def)
  ultimately show ?thesis by simp
qed

lemma rstrip_id: "s = [] \<or> \<not> isspace (last s) \<Longrightarrow> rstrip s = s"
  unfolding rstrip_def using dropWhile_id[of "rev s" isspace] by (cases "s = []") (simp_all add: hd_rev)

lemma lstrip_id: "s = [] \<or> \<not> isspace (hd s) \<Longrightarrow> lstrip s = s"
  unfolding lstrip_def by (rule dropWhile_id)

lemma strip_head: "strip s = [] \<or> \<not> isspace (hd (strip s))"
proof (cases "strip s = []")
  case True
  then show ?thesis by simp
next
  case False
  have "strip s = take (length (strip s)) (lstrip s)" unfolding strip_def by (rule rstrip_take)
  then have "hd (strip s) = hd (lstrip s)" using False by (metis hd_take length_greater_0_conv)
  moreover have "lstrip s \<noteq> []" using False by (auto simp: strip_def rstrip_def)
  ultimately show ?thesis using lstrip_head[of s] by simp
qed

lemma strip_id: "(s = [] \<or> (\<not> isspace (hd s) \<and> \<not> isspace (last s))) \<Longrightarrow> strip s = s"
  unfolding strip_def by (cases "s = []") (simp_all add: lstrip_id rstrip_id)

lemma strip_strip: "strip (strip s) = strip s"
  using strip_head[of s] strip_no_trailing_space[of s] strip_id[of "strip s"] by blast

lemma table_values: "list_all (\<lambda>(k, v). \<not> has_delim v \<and> strip v = v \<and> map_of country_replacement_map v = None) country_replacement_map"
  by code_simp

lemma replacement_clean:
  assumes "\<not> has_delim c" "strip c = c"
  shows "\<not> has_delim (replacement c) \<and> strip (replacement c) = replacement c
     \<and> replacement (replacement c) = replacement c"
proof (cases "map_of country_replacement_map c")
  case None
  then have "replacement c = c" by (simp add: replacement_def)
  with assms show ?thesis by simp
next
  case (Some v)
  then have "(c, v) \<in> set country_replacement_map" by (rule map_of_SomeD)
  with table_values have "\<not> has_delim v \<and> strip v = v \<and> map_of country_replacement_map v = None"
    by (auto simp: list_all_iff)
  moreover have "replacement c = v" using Some by (simp add: replacement_def)
  ultimately show ?thesis by (simp add: replacement_def)
qed

lemma standardized_countries_clean:
  assumes "n \<in> set (standardized_countries s)"
  shows "\<not> has_delim n \<and> strip n = n \<and> replacement n = n \<and> n \<noteq> []"
proof -
  from assms obtain tok where tok: "tok \<in> set (split LIST_DELIMITER s)" and n: "n = replacement (strip tok)" "n \<noteq> []"
    by (auto simp: standardized_countries_def Let_def)
  have "\<not> has_delim (strip tok)" using split_tokens[OF tok] has_delim_strip by blast
  with replacement_clean[of "strip tok"] n show ?thesis by (simp add: strip_strip)
qed

lemma standardized_countries_fixed:
  assumes "ts \<noteq> []" "\<forall>n \<in> set ts. \<not> has_delim n \<and> strip n = n \<and> replacement n = n \<and> n \<noteq> []"
  shows "standardized_countries (join LIST_DELIMITER ts) = ts"
proof -
  have "split LIST_DELIMITER (join LIST_DELIMITER ts) = ts" using assms by (intro split_join) simp_all
  moreover have "map strip ts = ts" using assms(2) by (simp add: map_idI)
  moreover have "map replacement ts = ts" using assms(2) by (simp add: map_idI)
  moreover have "filter (\<lambda>n. n \<noteq> []) ts = ts" using assms(2) by simp
  ultimately show ?thesis by (simp add: standardized_countries_def Let_def)
qed

text \<open>
  Claim C8. The standardization of an aggregated country cell (split on the list delimiter,
  trim and replace every token through the table, drop empty names and duplicates, sort,
  join again; a null cell stays null) is idempotent: applied to its own output it returns
  that output.
\<close>

theorem standardize_cell_idempotent:
  "standardize_cell (standardize_cell cell_value) = standardize_cell cell_value"
proof (cases cell_value)
  case None
  then show ?thesis by (simp add: standardize_cell_def)
next
  case (Some s)
  define names where "names = standardized_countries s"
  show ?thesis
  proof (cases "names = []")
    case True
    with Some show ?thesis by (simp add: standardize_cell_def names_def)
  next
    case False
    define ts where "ts = sort (remdups names)"
    have r: "standardize_cell cell_value = Some (join LIST_DELIMITER ts)"
      using Some False by (simp add: standardize_cell_def names_def[symmetric] ts_def Let_def)
    have ne: "ts \<noteq> []" using False by (metis ts_def length_sort length_0_conv remdups_eq_nil_iff)
    have cl: "\<forall>n \<in> set ts. \<not> has_delim n \<and> strip n = n \<and> replacement n = n \<and> n \<noteq> []"
      using standardized_countries_clean[of _ s] by (simp add: ts_def names_def)
    have f: "standardized_countries (join LIST_DELIMITER ts) = ts"
      by (rule standardized_countries_fixed[OF ne cl])
    have "sort (remdups ts) = ts" by (simp add: ts_def sorted_sort_id distinct_remdups_id)
    with f ne have "standardize_cell (Some (join LIST_DELIMITER ts)) = Some (join LIST_DELIMITER ts)"
      by (simp add: standardize_cell_def Let_def)
    with r show ?thesis by simp
  qed
qed

theorem standardize_cell_idempotent_witness:
  "standardize_cell (Some ''Turkey; USSR; Russian Federation; Russia'') = Some ''Russia; Russia (USSR); Turkey''
   \<and> standardize_cell (Some ''Russia; Russia (USSR); Turkey'') = Some ''Russia; Russia (USSR); Turkey''"
proof -
  have a: "standardize_cell (Some ''Turkey; USSR; Russian Federation; Russia'') = Some ''Russia; Russia (USSR); Turkey''"
    by code_simp
  have b: "standardize_cell (Some ''Russia; Russia (USSR); Turkey'') = Some ''Russia; Russia (USSR); Turkey''"
    using standardize_cell_idempotent[of "Some ''Turkey; USSR; Russian Federation; Russia''"] unfolding a .
  from a b show ?thesis by (intro conjI)
qed

section \<open>Properties of the row-level country cleanse\<close>

lemma concat_map_Nil: "(\<forall>x\<in>set xs. g x = []) \<Longrightarrow> concat (map g xs) = []"
  by (induction xs) simp_all

lemma paren_classes: "\<not> isword CHR '')''" "\<not> isspace CHR ''(''" "\<not> isdigit CHR '')''"
  by (simp_all add: isword_def isspace_def isdigit_def)

lemma takeWhile_all: "list_all P xs \<Longrightarrow> takeWhile P xs = xs"
  by (induction xs) simp_all

lemma code_prefix_iff:
  "(g', s') \<in> set (code_prefix (gs, s)) \<longleftrightarrow>
     g' = gs \<and> (\<exists>w sp. s = ''('' @ w @ '')'' @ sp @ s' \<and> list_all isword w \<and> 1 \<le> length w \<and> length w \<le> 3
        \<and> list_all isspace sp)"
  unfolding code_prefix_def seqs_Cons seqs_Nil seq_m_iff
  by (simp add: Bex_def lit_iff rep_cls_iff) blast

lemma code_prefix_shorter:
  "st' \<in> set (code_prefix st) \<Longrightarrow> length (snd st') < length (snd st)"
  by (cases st; cases st') (auto simp: code_prefix_iff)

lemma leading_code_decomp:
  assumes "s = ''('' @ w @ '')'' @ r2" "list_all isword w" "1 \<le> length w" "length w \<le> 3"
  shows "leading_code s = Some (dropWhile isspace r2)"
proof -
  have "takeWhile isword (w @ CHR '')'' # r2) = w"
    using assms(2) paren_classes(1) by (simp add: list_all_iff takeWhile_append2)
  then show ?thesis using assms by (simp add: leading_code_def Let_def)
qed

lemma code_prefix_None: 
  assumes "leading_code s = None" shows "code_prefix (gs, s) = []"
proof (rule ccontr)
  assume "code_prefix (gs, s) \<noteq> []"
  then have "hd (code_prefix (gs, s)) \<in> set (code_prefix (gs, s))" by (rule hd_in_set)
  then have "(fst (hd (code_prefix (gs, s))), snd (hd (code_prefix (gs, s)))) \<in> set (code_prefix (gs, s))"
    by simp
  then obtain g' s' where "(g', s') \<in> set (code_prefix (gs, s))" by blast
  then obtain w sp where "s = ''('' @ w @ '')'' @ (sp @ s')" "list_all isword w" "1 \<le> length w" "length w \<le> 3"
    unfolding code_prefix_iff by auto
  from leading_code_decomp[OF this] assms show False by simp
qed

lemma seqs_Nil_fun: "seqs [] = (\<lambda>st. [st])"
  by (simp add: seqs_def)

lemma seq_m_unit: "seq_m m (\<lambda>st. [st]) = m"
  by (simp add: seq_m_def fun_eq_iff)

lemma seq_m_lit_Cons: "seq_m (lit [c]) m (gs, c # r) = m (gs, r)"
  by (simp add: seq_m_def lit_def)

lemma seq_m_hd: "a st = x # xs \<Longrightarrow> seq_m a b st = b x @ concat (map b xs)"
  by (simp add: seq_m_def)

lemma rep_cls_greedy_shape:
  assumes "m = (case hi of None \<Rightarrow> length (takeWhile P s) | Some h \<Rightarrow> min h (length (takeWhile P s)))"
    "lo \<le> m"
  shows "rep_cls True lo hi P (gs, s) = (gs, drop m s) # map (\<lambda>k. (gs, drop k s)) (rev [lo..<m])"
  using assms by (simp add: rep_cls_def Let_def)

lemma rep_cls_lazy_shape:
  assumes "m = (case hi of None \<Rightarrow> length (takeWhile P s) | Some h \<Rightarrow> min h (length (takeWhile P s)))"
  shows "rep_cls False lo hi P (gs, s) = map (\<lambda>k. (gs, drop k s)) [lo..<Suc m]"
  using assms by (simp add: rep_cls_def Let_def del: upt_Suc)

lemma code_prefix_Some:
  assumes "leading_code s = Some r" shows "\<exists>rest. code_prefix (gs, s) = (gs, r) # rest"
proof -
  from assms obtain rr where s: "s = CHR ''('' # rr" 
    by (cases s) (auto simp: leading_code_def Let_def split: if_splits)
  define n where "n = length (takeWhile isword rr)"
  from assms s have n: "1 \<le> n" "n \<le> 3" and r2: "drop n rr \<noteq> []" "hd (drop n rr) = CHR '')''"
    and r: "r = dropWhile isspace (tl (drop n rr))"
    by (auto simp: leading_code_def Let_def n_def split: if_splits)
  from r2 obtain r2' where d: "drop n rr = CHR '')'' # r2'" by (cases "drop n rr") auto
  define tail3 where "tail3 = seq_m (lit '')'') (seq_m (rep_cls True 0 None isspace) (\<lambda>st. [st]))"
  have 1: "code_prefix (gs, s) = seq_m (rep_cls True 1 (Some 3) isword) tail3 (gs, rr)"
    unfolding code_prefix_def seqs_Cons seqs_Nil_fun s tail3_def by (rule seq_m_lit_Cons)
  have 2: "rep_cls True 1 (Some 3) isword (gs, rr) = (gs, drop n rr) # map (\<lambda>k. (gs, drop k rr)) (rev [1..<n])"
    by (rule rep_cls_greedy_shape) (use n in \<open>simp_all add: n_def\<close>)
  have 3: "tail3 (gs, drop n rr) = rep_cls True 0 None isspace (gs, r2')"
    unfolding tail3_def d seq_m_unit by (rule seq_m_lit_Cons)
  have 4: "rep_cls True 0 None isspace (gs, r2') =
      (gs, drop (length (takeWhile isspace r2')) r2') #
        map (\<lambda>k. (gs, drop k r2')) (rev [0..<length (takeWhile isspace r2')])"
    by (rule rep_cls_greedy_shape) simp_all
  have 5: "drop (length (takeWhile isspace r2')) r2' = r" using r d by (simp add: dropWhile_eq_drop)
  have 6: "seq_m (rep_cls True 1 (Some 3) isword) tail3 (gs, rr) =
      tail3 (gs, drop n rr) @ concat (map tail3 (map (\<lambda>k. (gs, drop k rr)) (rev [1..<n])))"
    using seq_m_hd[of "rep_cls True 1 (Some 3) isword" "(gs, rr)" "(gs, drop n rr)" _ tail3] 2 by simp
  show ?thesis unfolding 1 6 3 4 5 by simp
qed

lemma star_m_nonempty: "star_m body st \<noteq> []"
  by (subst star_m.simps) simp

lemma star_m_stop: "body st = [] \<Longrightarrow> star_m body st = [st]"
  by (subst star_m.simps) simp

lemma star_m_step:
  assumes "body st = x # xs" "length (snd x) < length (snd st)"
  shows "hd (star_m body st) = hd (star_m body x)"
  using assms star_m_nonempty[of body x] by (subst star_m.simps) simp

lemma star_code_prefix_hd:
  "length s \<le> n \<Longrightarrow> hd (star_m code_prefix (gs, s)) = (gs, strip_codes_fuel n s)"
proof (induction n arbitrary: s)
  case 0
  then have "leading_code s = None" by (simp add: leading_code_def)
  then show ?case using 0 by (simp add: star_m_stop code_prefix_None)
next
  case (Suc n)
  show ?case
  proof (cases "leading_code s")
    case None
    then show ?thesis by (simp add: star_m_stop code_prefix_None)
  next
    case (Some r)
    then obtain rest where c: "code_prefix (gs, s) = (gs, r) # rest" using code_prefix_Some by blast
    then have "(gs, r) \<in> set (code_prefix (gs, s))" by simp
    then have l: "length r < length s" using code_prefix_shorter by fastforce
    with Suc.prems have "length r \<le> n" by simp
    then have "hd (star_m code_prefix (gs, r)) = (gs, strip_codes_fuel n r)" by (rule Suc.IH)
    moreover have "hd (star_m code_prefix (gs, s)) = hd (star_m code_prefix (gs, r))"
      using star_m_step[of code_prefix "(gs, s)" "(gs, r)" rest] c l by simp
    ultimately show ?thesis using Some by simp
  qed
qed

lemma star_code_prefix_first:
  "\<exists>rest. star_m code_prefix ([], s) = ([], strip_codes s) # rest"
  using star_code_prefix_hd[of s "length s" "[]"] star_m_nonempty[of code_prefix "([], s)"]
  by (cases "star_m code_prefix ([], s)") (simp_all add: strip_codes_def)

lemma seq_lit_iff:
  "(g', x') \<in> set (seq_m (lit w) m (g, x)) \<longleftrightarrow> (\<exists>r. x = w @ r \<and> (g', x') \<in> set (m (g, r)))"
  by (auto simp: seq_m_iff lit_iff)

lemma seq_lit_intro: "(g', x') \<in> set (m (g, r)) \<Longrightarrow> (g', x') \<in> set (seq_m (lit w) m (g, w @ r))"
  unfolding seq_lit_iff by simp

lemma seq_rep_iff:
  "(g', x') \<in> set (seq_m (rep_cls gr lo hi P) m (g, x)) \<longleftrightarrow>
     (\<exists>c r. x = c @ r \<and> list_all P c \<and> lo \<le> length c
        \<and> (case hi of None \<Rightarrow> True | Some h \<Rightarrow> length c \<le> h) \<and> (g', x') \<in> set (m (g, r)))"
  (is "?L \<longleftrightarrow> ?R")
proof
  assume ?L
  then obtain y where y: "y \<in> set (rep_cls gr lo hi P (g, x))" and m: "(g', x') \<in> set (m y)"
    unfolding seq_m_iff by blast
  obtain yg r where yr: "y = (yg, r)" by (cases y)
  from y obtain c where "yg = g" "x = c @ r" "list_all P c" "lo \<le> length c"
      "(case hi of None \<Rightarrow> True | Some h \<Rightarrow> length c \<le> h)"
    unfolding yr rep_cls_iff by (elim conjE exE)
  with m yr show ?R by (intro exI[of _ c] exI[of _ r]) simp
next
  assume ?R
  then obtain c r where c: "x = c @ r" "list_all P c" "lo \<le> length c"
      "(case hi of None \<Rightarrow> True | Some h \<Rightarrow> length c \<le> h)" and m: "(g', x') \<in> set (m (g, r))"
    by (elim conjE exE)
  have "(g, r) \<in> set (rep_cls gr lo hi P (g, x))"
    unfolding rep_cls_iff using c by (intro conjI exI[of _ c]) simp_all
  then show ?L unfolding seq_m_iff using m by (rule bexI[rotated])
qed

lemma seq_rep_intro:
  assumes "list_all P c" "lo \<le> length c" "(case hi of None \<Rightarrow> True | Some h \<Rightarrow> length c \<le> h)"
    "(g', x') \<in> set (m (g, r))"
  shows "(g', x') \<in> set (seq_m (rep_cls gr lo hi P) m (g, c @ r))"
  unfolding seq_rep_iff using assms by (intro exI[of _ c] exI[of _ r]) simp

lemma number_annotation_iff:
  "(g', x') \<in> set (number_annotation (g, x)) \<longleftrightarrow>
     g' = g \<and> (\<exists>w ds a. x = w @ ''('' @ ds @ '')'' @ a @ x' \<and> list_all isspace w
        \<and> list_all isdigit ds \<and> 1 \<le> length ds \<and> list_all not_newline a)"
  (is "?L \<longleftrightarrow> ?R")
proof
  define m4 where "m4 = rep_cls True 0 None not_newline"
  define m3 where "m3 = seq_m (lit '')'') m4"
  define m2 where "m2 = seq_m (rep_cls True 1 None isdigit) m3"
  define m1 where "m1 = seq_m (lit ''('') m2"
  have na: "number_annotation = seq_m (rep_cls True 0 None isspace) m1"
    unfolding number_annotation_def seqs_Cons seqs_Nil_fun seq_m_unit m1_def m2_def m3_def m4_def ..
  {
    assume ?L
    then obtain w r0 where 0: "x = w @ r0" "list_all isspace w" "(g', x') \<in> set (m1 (g, r0))"
      unfolding na seq_rep_iff by (elim conjE exE)
    from 0(3) obtain r1 where 1: "r0 = ''('' @ r1" "(g', x') \<in> set (m2 (g, r1))"
      unfolding m1_def seq_lit_iff by (elim conjE exE)
    from 1(2) obtain ds r2 where 2: "r1 = ds @ r2" "list_all isdigit ds" "1 \<le> length ds" "(g', x') \<in> set (m3 (g, r2))"
      unfolding m2_def seq_rep_iff by (elim conjE exE)
    from 2(4) obtain r3 where 3: "r2 = '')'' @ r3" "(g', x') \<in> set (m4 (g, r3))"
      unfolding m3_def seq_lit_iff by (elim conjE exE)
    from 3(2) obtain a where 4: "g' = g" "r3 = a @ x'" "list_all not_newline a"
      unfolding m4_def rep_cls_iff by (elim conjE exE)
    have "x = w @ ''('' @ ds @ '')'' @ a @ x'" unfolding 0(1) 1(1) 2(1) 3(1) 4(2) ..
    with 0(2) 2(2,3) 4(1,3) show ?R by (intro conjI exI[of _ w] exI[of _ ds] exI[of _ a])
  }
  {
    assume ?R
    then obtain w ds a where g: "g' = g" and x: "x = w @ ''('' @ ds @ '')'' @ a @ x'" and p: "list_all isspace w"
        "list_all isdigit ds" "1 \<le> length ds" "list_all not_newline a"
      by (elim conjE exE)
    have "(g', x') \<in> set (m4 (g, a @ x'))"
      unfolding m4_def rep_cls_iff using g p(4) by (intro conjI exI[of _ a]) simp_all
    then have "(g', x') \<in> set (m3 (g, '')'' @ a @ x'))" unfolding m3_def by (rule seq_lit_intro)
    then have "(g', x') \<in> set (m2 (g, ds @ '')'' @ a @ x'))" unfolding m2_def
      by (intro seq_rep_intro p(2,3)) simp_all
    then have "(g', x') \<in> set (m1 (g, ''('' @ ds @ '')'' @ a @ x'))" unfolding m1_def by (rule seq_lit_intro)
    then show ?L unfolding na x by (intro seq_rep_intro p(1)) simp_all
  }
qed

lemma nonempty_hd_Cons: "r \<noteq> [] \<Longrightarrow> hd r = c \<Longrightarrow> \<exists>t. r = c # t"
  by (cases r) simp_all

lemma starts_annotation_parts:
  assumes "starts_annotation x"
  shows "\<exists>t u. dropWhile isspace x = CHR ''('' # t \<and> takeWhile isdigit t \<noteq> []
            \<and> dropWhile isdigit t = CHR '')'' # u"
proof -
  from assms have "dropWhile isspace x \<noteq> []" "hd (dropWhile isspace x) = CHR ''(''"
    unfolding starts_annotation_def Let_def by simp_all
  then have "\<exists>t. dropWhile isspace x = CHR ''('' # t" by (rule nonempty_hd_Cons)
  then obtain t where t: "dropWhile isspace x = CHR ''('' # t" ..
  from assms have b: "takeWhile isdigit t \<noteq> []" "dropWhile isdigit t \<noteq> []" "hd (dropWhile isdigit t) = CHR '')''"
    unfolding starts_annotation_def Let_def t by (simp_all add: dropWhile_eq_drop)
  from b(2,3) have "\<exists>u. dropWhile isdigit t = CHR '')'' # u" by (rule nonempty_hd_Cons)
  then obtain u where u: "dropWhile isdigit t = CHR '')'' # u" ..
  from t b(1) u show ?thesis by (intro exI[of _ t] exI[of _ u] conjI)
qed

lemma starts_annotation_fwd:
  assumes L: "starts_annotation x"
  shows "(\<exists>w ds y. x = w @ ''('' @ ds @ '')'' @ y \<and> list_all isspace w \<and> list_all isdigit ds \<and> ds \<noteq> [])"
proof -
  from starts_annotation_parts[OF L] obtain t u where t: "dropWhile isspace x = CHR ''('' # t"
    and n: "takeWhile isdigit t \<noteq> []" and u: "dropWhile isdigit t = CHR '')'' # u"
    by (elim exE conjE)
  have "t = takeWhile isdigit t @ dropWhile isdigit t" by (rule takeWhile_dropWhile_id[symmetric])
  then have t2: "t = takeWhile isdigit t @ CHR '')'' # u" unfolding u .
  have "x = takeWhile isspace x @ dropWhile isspace x" by (rule takeWhile_dropWhile_id[symmetric])
  then have e1: "x = takeWhile isspace x @ CHR ''('' # t" unfolding t .
  have e2: "takeWhile isspace x @ CHR ''('' # t =
      takeWhile isspace x @ CHR ''('' # (takeWhile isdigit t @ CHR '')'' # u)"
    by (rule arg_cong[where f = "\<lambda>z. takeWhile isspace x @ CHR ''('' # z", OF t2])
  have e3: "takeWhile isspace x @ CHR ''('' # (takeWhile isdigit t @ CHR '')'' # u) =
      takeWhile isspace x @ ''('' @ takeWhile isdigit t @ '')'' @ u"
    by (simp only: append_Cons append_Nil)
  have x: "x = takeWhile isspace x @ ''('' @ takeWhile isdigit t @ '')'' @ u"
    by (rule trans[OF e1 trans[OF e2 e3]])
  have w: "list_all isspace (takeWhile isspace x)" unfolding list_all_iff by (blast dest: set_takeWhileD)
  have d: "list_all isdigit (takeWhile isdigit t)" unfolding list_all_iff by (blast dest: set_takeWhileD)
  from x w d n show ?thesis
    by (intro exI[of _ "takeWhile isspace x"] exI[of _ "takeWhile isdigit t"] exI[of _ u] conjI)
qed

lemma starts_annotation_bwd:
  assumes R: "(\<exists>w ds y. x = w @ ''('' @ ds @ '')'' @ y \<and> list_all isspace w \<and> list_all isdigit ds \<and> ds \<noteq> [])"
  shows "starts_annotation x"
proof -
  from R obtain w ds y where x: "x = w @ ''('' @ ds @ '')'' @ y" and w: "list_all isspace w"
    and d: "list_all isdigit ds" "ds \<noteq> []" by (elim exE conjE)
  have 1: "dropWhile isspace x = CHR ''('' # ds @ CHR '')'' # y"
    using w paren_classes(2) by (simp add: x list_all_iff dropWhile_append2)
  have 2: "takeWhile isdigit (ds @ CHR '')'' # y) = ds"
    using d(1) paren_classes(3) by (simp add: list_all_iff takeWhile_append2)
  show ?thesis unfolding starts_annotation_def Let_def 1 using d(2) by (simp add: 2)
qed

lemma starts_annotation_iff:
  "starts_annotation x \<longleftrightarrow>
     (\<exists>w ds y. x = w @ ''('' @ ds @ '')'' @ y \<and> list_all isspace w \<and> list_all isdigit ds \<and> ds \<noteq> [])"
  using starts_annotation_fwd[of x] starts_annotation_bwd[of x] by (rule iffI)

lemma star_m_iff:
  "y \<in> set (star_m body st) \<longleftrightarrow>
     y = st \<or> (\<exists>st' \<in> set (body st). length (snd st') < length (snd st) \<and> y \<in> set (star_m body st'))"
  by (subst star_m.simps) auto

lemma star_number_annotation_groups:
  "(g', x') \<in> set (star_m number_annotation (g, x)) \<Longrightarrow> g' = g"
proof (induction "length x" arbitrary: x rule: less_induct)
  case less
  from less.prems have "(g', x') = (g, x) \<or>
      (\<exists>st' \<in> set (number_annotation (g, x)). length (snd st') < length (snd (g, x))
          \<and> (g', x') \<in> set (star_m number_annotation st'))"
    by (rule star_m_iff[THEN iffD1])
  then show ?case
  proof (elim disjE bexE conjE)
    assume "(g', x') = (g, x)" then show ?thesis by simp
  next
    fix st' assume a: "st' \<in> set (number_annotation (g, x))" "length (snd st') < length (snd (g, x))"
      "(g', x') \<in> set (star_m number_annotation st')"
    obtain g1 x1 where st': "st' = (g1, x1)" by (cases st')
    from a(1) have "g1 = g" unfolding st' number_annotation_iff by (rule conjunct1)
    moreover from a(2) have "length x1 < length x" unfolding st' by simp
    moreover from a(3) have "(g', x') \<in> set (star_m number_annotation (g, x1))"
      unfolding st' \<open>g1 = g\<close> .
    ultimately show ?thesis using less.hyps[of x1] by simp
  qed
qed

lemma star_m_self: "st \<in> set (star_m body st)"
  by (rule star_m_iff[THEN iffD2]) simp

lemma star_m_stepI:
  assumes "st' \<in> set (body st)" "length (snd st') < length (snd st)" "y \<in> set (star_m body st')"
  shows "y \<in> set (star_m body st)"
  by (rule star_m_iff[THEN iffD2]) (use assms in blast)

lemma tail_accepts:
  assumes "list_all not_newline x"
  shows "seq_m (star_m number_annotation) eol (g, x) \<noteq> [] \<longleftrightarrow> x = [] \<or> starts_annotation x"
proof
  assume "seq_m (star_m number_annotation) eol (g, x) \<noteq> []"
  then have "hd (seq_m (star_m number_annotation) eol (g, x)) \<in> set (seq_m (star_m number_annotation) eol (g, x))"
    by (rule hd_in_set)
  then obtain y st where st: "st \<in> set (star_m number_annotation (g, x))" and y: "y \<in> set (eol st)"
    unfolding seq_m_iff by blast
  show "x = [] \<or> starts_annotation x"
  proof (rule ccontr)
    assume n: "\<not> (x = [] \<or> starts_annotation x)"
    have e: "number_annotation (g, x) = []"
    proof (rule ccontr)
      assume "number_annotation (g, x) \<noteq> []"
      then have "hd (number_annotation (g, x)) \<in> set (number_annotation (g, x))" by (rule hd_in_set)
      then obtain p where p: "p \<in> set (number_annotation (g, x))" by blast
      obtain g' x' where "p = (g', x')" by (cases p)
      with p have "(g', x') \<in> set (number_annotation (g, x))" by simp
      then obtain w ds a where wd: "x = w @ ''('' @ ds @ '')'' @ a @ x'" "list_all isspace w" "list_all isdigit ds"
          "1 \<le> length ds"
        unfolding number_annotation_iff by (elim conjE exE)
      from wd(4) have "ds \<noteq> []" by auto
      with wd have "starts_annotation x"
        by (intro starts_annotation_bwd exI[of _ w] exI[of _ ds] exI[of _ "a @ x'"] conjI)
      with n show False by simp
    qed
    have "star_m number_annotation (g, x) = [(g, x)]" using e by (rule star_m_stop)
    with st have s: "st = (g, x)" by simp
    obtain yg yx where "y = (yg, yx)" by (cases y)
    with y s have "x = [] \<or> x = [CHR 0x0A]" by (simp add: eol_iff)
    with n have "x = [CHR 0x0A]" by simp
    with assms show False by (simp add: not_newline_def)
  qed
next
  assume ok: "x = [] \<or> starts_annotation x"
  have "(g, []) \<in> set (star_m number_annotation (g, x))"
  proof (cases "x = []")
    case True
    then show ?thesis using star_m_self[of "(g, [])" number_annotation] by simp
  next
    case False
    with ok have "starts_annotation x" by simp
    then have "\<exists>w ds y. x = w @ ''('' @ ds @ '')'' @ y \<and> list_all isspace w \<and> list_all isdigit ds \<and> ds \<noteq> []"
      by (rule starts_annotation_fwd)
    then obtain w ds y where x: "x = w @ ''('' @ ds @ '')'' @ y" and w: "list_all isspace w"
      and d: "list_all isdigit ds" "ds \<noteq> []" by (elim exE conjE)
    from d(2) have d1: "1 \<le> length ds" by (cases ds) simp_all
    have "list_all not_newline y" using assms unfolding x by simp
    then have "(g, []) \<in> set (number_annotation (g, x))"
      unfolding number_annotation_iff using x w d(1) d1
      by (intro conjI exI[of _ w] exI[of _ ds] exI[of _ y]) simp_all
    moreover have "length (snd (g, [] :: string)) < length (snd (g, x))" using False by simp
    ultimately show ?thesis using star_m_self[of "(g, [])" number_annotation] by (rule star_m_stepI)
  qed
  moreover have "(g, []) \<in> set (eol (g, []))" by (simp add: eol_iff)
  ultimately have "(g, []) \<in> set (seq_m (star_m number_annotation) eol (g, x))"
    unfolding seq_m_iff by (rule bexI[rotated])
  then show "seq_m (star_m number_annotation) eol (g, x) \<noteq> []" by auto
qed

lemma tail_groups:
  assumes "y \<in> set (seq_m (star_m number_annotation) eol (g, x))" shows "fst y = g"
proof -
  from assms obtain st where st: "st \<in> set (star_m number_annotation (g, x))" and y: "y \<in> set (eol st)"
    unfolding seq_m_iff by blast
  from st have "fst st = g" using star_number_annotation_groups[of "fst st" "snd st" g x] by simp
  moreover obtain yg yx where "y = (yg, yx)" by (cases y)
  moreover obtain sg sx where "st = (sg, sx)" by (cases st)
  ultimately show ?thesis using y by (simp add: eol_iff)
qed

lemma lazy_first:
  assumes acc: "\<And>g x. list_all not_newline x \<Longrightarrow> (f (g, x) \<noteq> [] \<longleftrightarrow> x = [] \<or> starts_annotation x)"
    and grp: "\<And>g x y. y \<in> set (f (g, x)) \<Longrightarrow> fst y = g"
    and nl: "list_all not_newline r"
  shows "\<exists>y rest. concat (map f (map (\<lambda>k. (gs @ [pre @ take k r], drop k r)) [0..<Suc (length r)]))
           = (gs @ [pre @ before_annotation r], y) # rest"
  using nl
proof (induction r arbitrary: pre)
  case Nil
  have "f (gs @ [pre], []) \<noteq> []" using acc[of "[]" "gs @ [pre]"] by simp
  then obtain z zs where z: "f (gs @ [pre], []) = z # zs" by (cases "f (gs @ [pre], [])") simp_all
  then have "fst z = gs @ [pre]" using grp[of z "gs @ [pre]" "[]"] by simp
  then have "z = (gs @ [pre], snd z)" by (cases z) simp
  with z show ?case by (intro exI[of _ "snd z"] exI[of _ zs]) simp
next
  case (Cons c cs)
  have ix: "[0..<Suc (length (c # cs))] = 0 # map Suc [0..<Suc (length cs)]"
    by (subst upt_conv_Cons) (simp_all add: map_Suc_upt del: upt_Suc)
  have split: "concat (map f (map (\<lambda>k. (gs @ [pre @ take k (c # cs)], drop k (c # cs))) [0..<Suc (length (c # cs))]))
      = f (gs @ [pre], c # cs) @
        concat (map f (map (\<lambda>k. (gs @ [(pre @ [c]) @ take k cs], drop k cs)) [0..<Suc (length cs)]))"
    unfolding ix by (simp add: comp_def del: upt_Suc)
  show ?case
  proof (cases "starts_annotation (c # cs)")
    case True
    then have "f (gs @ [pre], c # cs) \<noteq> []" using acc[of "c # cs" "gs @ [pre]"] Cons.prems by simp
    then obtain z zs where z: "f (gs @ [pre], c # cs) = z # zs" by (cases "f (gs @ [pre], c # cs)") simp_all
    then have "fst z = gs @ [pre]" using grp[of z "gs @ [pre]" "c # cs"] by simp
    then have "z = (gs @ [pre], snd z)" by (cases z) simp
    with z True show ?thesis unfolding split
      by (intro exI[of _ "snd z"] exI[of _ "zs @ concat (map f (map (\<lambda>k. (gs @ [(pre @ [c]) @ take k cs], drop k cs)) [0..<Suc (length cs)]))"]) simp
  next
    case False
    then have e: "f (gs @ [pre], c # cs) = []" using acc[of "c # cs" "gs @ [pre]"] Cons.prems by simp
    have "list_all not_newline cs" using Cons.prems by simp
    from Cons.IH[OF this, of "pre @ [c]"] obtain y rest where
      "concat (map f (map (\<lambda>k. (gs @ [(pre @ [c]) @ take k cs], drop k cs)) [0..<Suc (length cs)]))
           = (gs @ [(pre @ [c]) @ before_annotation cs], y) # rest" by blast
    with e False show ?thesis unfolding split by (intro exI[of _ y] exI[of _ rest]) simp
  qed
qed

lemma grp_lazy_shape:
  assumes "list_all not_newline r"
  shows "grp (rep_cls False 0 None not_newline) (gs, r) =
     map (\<lambda>k. (gs @ [[] @ take k r], drop k r)) [0..<Suc (length r)]"
proof -
  have tw: "length (takeWhile not_newline r) = length r" using assms by (simp add: takeWhile_all)
  have "rep_cls False 0 None not_newline (gs, r) = map (\<lambda>k. (gs, drop k r)) [0..<Suc (length r)]"
    using rep_cls_lazy_shape[where m = "length r" and hi = None and P = not_newline and s = r and lo = 0 and gs = gs] tw
    by simp
  then have "grp (rep_cls False 0 None not_newline) (gs, r) =
      map (\<lambda>k. (gs @ [take (length r - length (drop k r)) r], drop k r)) [0..<Suc (length r)]"
    by (simp add: grp_def comp_def del: upt_Suc)
  also have "\<dots> = map (\<lambda>k. (gs @ [[] @ take k r], drop k r)) [0..<Suc (length r)]"
    by (rule map_cong) (auto simp del: upt_Suc)
  finally show ?thesis .
qed

lemma leading_code_all:
  assumes "leading_code s = Some r" "list_all P s" shows "list_all P r"
proof -
  from assms(1) obtain c rr where s: "s = c # rr" by (cases s) (simp_all add: leading_code_def)
  define r2 where "r2 = drop (length (takeWhile isword rr)) rr"
  from assms(1) have r: "r = dropWhile isspace (tl r2)"
    unfolding s leading_code_def Let_def r2_def by (simp split: if_splits)
  have "set r \<subseteq> set (tl r2)" unfolding r by (auto dest: set_dropWhileD)
  moreover have "set (tl r2) \<subseteq> set r2" by (cases r2) auto
  moreover have "set r2 \<subseteq> set rr" unfolding r2_def by (rule set_drop_subset)
  ultimately have "set r \<subseteq> set s" unfolding s by auto
  with assms(2) show ?thesis unfolding list_all_iff by blast
qed

lemma strip_codes_fuel_all: "list_all P s \<Longrightarrow> list_all P (strip_codes_fuel n s)"
proof (induction n arbitrary: s)
  case 0
  then show ?case by simp
next
  case (Suc n)
  show ?case
  proof (cases "leading_code s")
    case None
    with Suc.prems show ?thesis by simp
  next
    case (Some r)
    then have "list_all P r" using Suc.prems by (rule leading_code_all)
    then have "list_all P (strip_codes_fuel n r)" by (rule Suc.IH)
    with Some show ?thesis by simp
  qed
qed

lemma strip_codes_all: "list_all P s \<Longrightarrow> list_all P (strip_codes s)"
  unfolding strip_codes_def by (rule strip_codes_fuel_all)

lemma country_pattern_first:
  assumes "list_all not_newline s"
  shows "re_match country_extract_pattern s = Some [before_annotation (strip_codes s)]"
proof -
  define T where "T = seq_m (star_m number_annotation) eol"
  define F where "F = seq_m (grp (rep_cls False 0 None not_newline)) T"
  have pat: "country_extract_pattern = seq_m (star_m code_prefix) F"
    unfolding country_extract_pattern_def seqs_Cons seqs_Nil_fun seq_m_unit F_def T_def ..
  obtain rest where st: "star_m code_prefix ([], s) = ([], strip_codes s) # rest"
    using star_code_prefix_first[of s] by blast
  have nl: "list_all not_newline (strip_codes s)" using assms by (rule strip_codes_all)
  have acc: "\<And>g x. list_all not_newline x \<Longrightarrow> (T (g, x) \<noteq> [] \<longleftrightarrow> x = [] \<or> starts_annotation x)"
    unfolding T_def by (rule tail_accepts)
  have grp: "\<And>g x y. y \<in> set (T (g, x)) \<Longrightarrow> fst y = g"
    unfolding T_def by (rule tail_groups)
  have "\<exists>y rest'. concat (map T (map (\<lambda>k. ([] @ [[] @ take k (strip_codes s)], drop k (strip_codes s)))
        [0..<Suc (length (strip_codes s))])) = ([] @ [[] @ before_annotation (strip_codes s)], y) # rest'"
  proof (rule lazy_first[where f = T and r = "strip_codes s" and gs = "[]" and pre = "[]"])
    show "T (g, x) \<noteq> [] \<longleftrightarrow> x = [] \<or> starts_annotation x" if "list_all not_newline x" for g x
      using that by (rule acc)
    show "fst y = g" if "y \<in> set (T (g, x))" for g x y
      using that by (rule grp)
    show "list_all not_newline (strip_codes s)" by (rule nl)
  qed
  then obtain y rest' where lf: "concat (map T (map (\<lambda>k. ([] @ [[] @ take k (strip_codes s)], drop k (strip_codes s)))
        [0..<Suc (length (strip_codes s))])) = ([] @ [[] @ before_annotation (strip_codes s)], y) # rest'"
    by (elim exE)
  have "F ([], strip_codes s) = ([before_annotation (strip_codes s)], y) # rest'"
    unfolding F_def seq_m_def grp_lazy_shape[OF nl] lf by simp
  moreover have "country_extract_pattern ([], s) = F ([], strip_codes s) @ concat (map F rest)"
    unfolding pat using seq_m_hd[of "star_m code_prefix" "([], s)" "([], strip_codes s)" rest F] st by simp
  ultimately have "country_extract_pattern ([], s) =
      ([before_annotation (strip_codes s)], y) # (rest' @ concat (map F rest))" by simp
  then show ?thesis unfolding re_match_def by simp
qed

lemma rstrip_chars_Nil: "rstrip_chars cs [] = []"
  by (simp add: rstrip_chars_def)

lemma clean_country_string_match:
  assumes "re_match country_extract_pattern s = Some gs"
  shows "clean_country_string (Some s) =
     (let name = rstrip_chars ''., '' (strip (gs ! 0)) in if name = [] then None else Some name)"
  using assms by (cases "strip (gs ! 0) = []") (simp_all add: clean_country_string_def Let_def rstrip_chars_Nil)

lemma clean_country_string_no_match:
  assumes "re_match country_extract_pattern s = None"
  shows "clean_country_string (Some s) =
     (let name = rstrip_chars ''., '' (strip s) in if name = [] then None else Some name)"
  using assms by (cases "strip s = []") (simp_all add: clean_country_string_def Let_def rstrip_chars_Nil)

lemma clean_country_string_not_empty: "clean_country_string c \<noteq> Some []"
  by (cases c) (simp_all add: clean_country_string_def Let_def split: option.splits)

text \<open>
  Claim C7, as the code has it. On a text without a line feed the row-level cleanse is the
  cleanse of the specification: the leading bracketed short codes are taken off, the text is
  cut where a parenthesised number begins, the rest is trimmed and loses its trailing
  periods, commas and spaces, and an empty result is null. A text that the pattern does not
  match (the dot does not cross a line feed) is only trimmed and stripped of trailing
  periods, commas and spaces. The result is never the empty text, and
  \<open>"(3) Russian Federation (1234)"\<close> gives \<open>"Russian Federation"\<close>.
\<close>

theorem clean_country_string_spec:
  "(CHR 0x0A \<notin> set s \<longrightarrow> clean_country_string (Some s) = country_cleanse_spec s)
   \<and> (re_match country_extract_pattern s = None \<longrightarrow>
        clean_country_string (Some s) =
          (let name = rstrip_chars ''., '' (strip s) in if name = [] then None else Some name))
   \<and> clean_country_string c \<noteq> Some []
   \<and> clean_country_string (Some ''(3) Russian Federation (1234)'') = Some ''Russian Federation''"
proof (intro conjI impI)
  assume "CHR 0x0A \<notin> set s"
  then have "list_all not_newline s" by (auto simp: list_all_iff not_newline_def)
  then have "re_match country_extract_pattern s = Some [before_annotation (strip_codes s)]"
    by (rule country_pattern_first)
  then show "clean_country_string (Some s) = country_cleanse_spec s"
    unfolding country_cleanse_spec_def by (simp add: clean_country_string_match)
next
  assume "re_match country_extract_pattern s = None"
  then show "clean_country_string (Some s) =
      (let name = rstrip_chars ''., '' (strip s) in if name = [] then None else Some name)"
    by (rule clean_country_string_no_match)
next
  show "clean_country_string c \<noteq> Some []" by (rule clean_country_string_not_empty)
next
  show "clean_country_string (Some ''(3) Russian Federation (1234)'') = Some ''Russian Federation''"
    by code_simp
qed

theorem clean_country_string_spec_witness:
  "clean_country_string (Some ''(12) United Kingdom (5678). '') = Some ''United Kingdom''
   \<and> clean_country_string (Some (''('' @ [CHR 0xE9] @ '')'' @ [CHR 0xA0] @ ''France'')) = Some ''France''"
proof -
  have n: "CHR 0x0A \<notin> set ''(12) United Kingdom (5678). ''" by simp
  have v: "country_cleanse_spec ''(12) United Kingdom (5678). '' = Some ''United Kingdom''" by code_simp
  from clean_country_string_spec[where s = "''(12) United Kingdom (5678). ''", THEN conjunct1, THEN mp, OF n]
  have a: "clean_country_string (Some ''(12) United Kingdom (5678). '') = Some ''United Kingdom''"
    unfolding v .
  have n2: "CHR 0x0A \<notin> set (''('' @ [CHR 0xE9] @ '')'' @ [CHR 0xA0] @ ''France'')" by simp
  have v2: "country_cleanse_spec (''('' @ [CHR 0xE9] @ '')'' @ [CHR 0xA0] @ ''France'') = Some ''France''"
    by code_simp
  from clean_country_string_spec[where s = "''('' @ [CHR 0xE9] @ '')'' @ [CHR 0xA0] @ ''France''",
      THEN conjunct1, THEN mp, OF n2]
  have b: "clean_country_string (Some (''('' @ [CHR 0xE9] @ '')'' @ [CHR 0xA0] @ ''France'')) = Some ''France''"
    unfolding v2 .
  from a b show ?thesis by (intro conjI)
qed

text \<open>
  A country text with a line feed inside keeps its leading code: the pattern does not match
  and the text is returned trimmed only.
\<close>

theorem clean_country_string_line_feed_counterexample:
  "clean_country_string (Some (''(1) foo'' @ [CHR 0x0A] @ ''bar'')) = Some (''(1) foo'' @ [CHR 0x0A] @ ''bar'')
   \<and> country_cleanse_spec (''(1) foo'' @ [CHR 0x0A] @ ''bar'') = Some (''foo'' @ [CHR 0x0A] @ ''bar'')"
  by code_simp

section \<open>Properties of the aggregation of a group\<close>

lemma take1_filter_find:
  "take 1 (filter P xs) = (case find P xs of None \<Rightarrow> [] | Some x \<Rightarrow> [x])"
  by (induction xs) simp_all

lemma select_primary_row_canonical:
  "select_primary_row g = (case canonical_row g of None \<Rightarrow> Inl IndexError | Some r \<Rightarrow> Inr r)"
  unfolding select_primary_row_def canonical_row_def Let_def take1_filter_find
  by (simp split: option.splits list.splits)

lemma canonical_row_nonempty: "g \<noteq> [] \<Longrightarrow> \<exists>r. canonical_row g = Some r"
  unfolding canonical_row_def by (cases g) (simp_all split: option.splits)

lemma aggregate_fields:
  assumes "canonical_row g = Some r"
  shows "\<exists>d. aggregate_sanctions_data g = Inr d
      \<and> Primary_Name d = Constructed_Name r \<and> Primary_Name_Non_Latin d = Name_Non_Latin_Raw r
      \<and> Group_Type d = group_type r \<and> Regime d = regime r
      \<and> Listed_On d = listed_on r
      \<and> UK_Sanctions_List_Date_Designated d = uk_sanctions_list_date_designated r
      \<and> Last_Updated d = last_updated r"
  unfolding aggregate_sanctions_data_def select_primary_row_canonical assms bind_err_def Let_def
  by simp

lemma aggregate_nonempty: "g \<noteq> [] \<Longrightarrow> \<not> isl (aggregate_sanctions_data g)"
  using canonical_row_nonempty[of g] aggregate_fields[of g] by fastforce

text \<open>
  Claim C1. For every group with at least one row, the row that \<open>aggregate_sanctions_data\<close>
  selects is the canonical row of the specification: the first row, in input order, tagged
  \<open>Primary name\<close>; if there is none, the first row tagged \<open>Primary name variation\<close>; if
  there is none either, the first row of the group. That row supplies the primary name, the
  non-Latin primary name, the group type, the regime and the three metadata dates of the
  aggregated row.
\<close>

theorem canonical_row_selection:
  assumes "group_df \<noteq> []"
  shows "\<exists>row d. canonical_row group_df = Some row
      \<and> select_primary_row group_df = Inr row
      \<and> aggregate_sanctions_data group_df = Inr d
      \<and> Primary_Name d = Constructed_Name row
      \<and> Primary_Name_Non_Latin d = Name_Non_Latin_Raw row
      \<and> Group_Type d = group_type row
      \<and> Regime d = regime row
      \<and> Listed_On d = listed_on row
      \<and> UK_Sanctions_List_Date_Designated d = uk_sanctions_list_date_designated row
      \<and> Last_Updated d = last_updated row"
proof -
  obtain row where row: "canonical_row group_df = Some row"
    using canonical_row_nonempty[OF assms] ..
  have sel: "select_primary_row group_df = Inr row"
    unfolding select_primary_row_canonical row by simp
  from aggregate_fields[OF row] obtain d where
    "aggregate_sanctions_data group_df = Inr d
      \<and> Primary_Name d = Constructed_Name row \<and> Primary_Name_Non_Latin d = Name_Non_Latin_Raw row
      \<and> Group_Type d = group_type row \<and> Regime d = regime row
      \<and> Listed_On d = listed_on row
      \<and> UK_Sanctions_List_Date_Designated d = uk_sanctions_list_date_designated row
      \<and> Last_Updated d = last_updated row" ..
  with row sel show ?thesis by (intro exI conjI) (elim conjE, assumption)+
qed

text \<open>
  A group of four rows in which the third is the first one tagged \<open>Primary name\<close>: it gives
  the primary name, although a row tagged \<open>Primary name variation\<close> and an untagged row come
  before it and another row tagged \<open>Primary name\<close> comes after it.
\<close>

theorem canonical_row_selection_witness:
  "\<exists>d. aggregate_sanctions_data
          [example_prepared_row 100 None ''Jon Smith'',
           example_prepared_row 100 (Some ''Primary name variation'') ''J. Smith'',
           example_prepared_row 100 (Some ''Primary name'') ''John Smith'',
           example_prepared_row 100 (Some ''Primary name'') ''Johnny Smith''] = Inr d
     \<and> Primary_Name d = Some ''John Smith''
     \<and> Group_Type d = Some ''Individual''
     \<and> Listed_On d = Some ''01/02/2020''"
proof -
  let ?g = "[example_prepared_row 100 None ''Jon Smith'',
           example_prepared_row 100 (Some ''Primary name variation'') ''J. Smith'',
           example_prepared_row 100 (Some ''Primary name'') ''John Smith'',
           example_prepared_row 100 (Some ''Primary name'') ''Johnny Smith'']"
  have ne: "?g \<noteq> []" by simp
  have c: "canonical_row ?g = Some (example_prepared_row 100 (Some ''Primary name'') ''John Smith'')"
    by (simp add: canonical_row_def example_prepared_row_def)
  from canonical_row_selection[OF ne] obtain row d where
    r: "canonical_row ?g = Some row" and a: "aggregate_sanctions_data ?g = Inr d"
    and f: "Primary_Name d = Constructed_Name row" "Group_Type d = group_type row" "Listed_On d = listed_on row"
    by (elim exE conjE)
  from r c have row: "row = example_prepared_row 100 (Some ''Primary name'') ''John Smith''" by simp
  have "Primary_Name d = Some ''John Smith''" "Group_Type d = Some ''Individual''" "Listed_On d = Some ''01/02/2020''"
    unfolding f row by (simp_all add: example_prepared_row_def)
  with a show ?thesis by (intro exI conjI)
qed

section \<open>Properties of the pipeline\<close>

lemma map_err_total:
  "(\<And>x. x \<in> set xs \<Longrightarrow> \<not> isl (f x)) \<Longrightarrow> map_err f xs = Inr (map (\<lambda>x. projr (f x)) xs)"
proof (induction xs)
  case Nil show ?case by simp
next
  case (Cons x xs)
  have "\<not> isl (f x)" using Cons.prems by simp
  then obtain y where y: "f x = Inr y" by (cases "f x") simp_all
  have "map_err f xs = Inr (map (\<lambda>x. projr (f x)) xs)" using Cons by simp
  then show ?case using y by (simp add: bind_err_def)
qed

lemma prepare_row_total: "\<not> isl (prepare_row cy now r)"
proof -
  obtain st where "parse_dob_comprehensive cy now (dob r) = Inr st"
    using parse_dob_inv[of cy now "dob r"] by (cases "parse_dob_comprehensive cy now (dob r)") simp_all
  then show ?thesis unfolding prepare_row_def by (simp add: bind_err_def split: prod.splits)
qed

lemma prepare_row_group_id: "group_id (projr (prepare_row cy now r)) = group_id r"
proof -
  obtain st where "parse_dob_comprehensive cy now (dob r) = Inr st"
    using parse_dob_inv[of cy now "dob r"] by (cases "parse_dob_comprehensive cy now (dob r)") simp_all
  then show ?thesis unfolding prepare_row_def
    by (simp add: bind_err_def source_row.defs prepared_row.defs split: prod.splits)
qed

lemma groupby_keys: "map fst (groupby df) = sort (remdups (dropna (map group_id df)))"
  unfolding groupby_def by (simp add: comp_def)

lemma set_dropna: "set (dropna xs) = {x. Some x \<in> set xs}"
  by (induction xs) (auto simp: dropna_def split: option.splits)

lemma groupby_nonempty: "(k, g) \<in> set (groupby df) \<Longrightarrow> g \<noteq> []"
proof -
  assume "(k, g) \<in> set (groupby df)"
  then have k: "k \<in> set (dropna (map group_id df))" and g: "g = filter (\<lambda>row. group_id row = Some k) df"
    unfolding groupby_def by auto
  from k obtain row where "row \<in> set df" "group_id row = Some k" unfolding set_dropna by auto
  then show "g \<noteq> []" unfolding g by (auto simp: filter_empty_conv)
qed

lemma groupby_empty_iff: "groupby df = [] \<longleftrightarrow> (\<forall>row \<in> set df. group_id row = None)"
proof -
  have n: "sort ys = [] \<longleftrightarrow> ys = []" for ys :: "int list"
    by (metis length_sort length_0_conv)
  have "groupby df = [] \<longleftrightarrow> set (dropna (map group_id df)) = {}"
    unfolding groupby_def by (simp add: n)
  also have "\<dots> \<longleftrightarrow> (\<forall>row \<in> set df. group_id row = None)"
    unfolding set_dropna
  proof
    assume e: "{x. Some x \<in> set (map group_id df)} = {}"
    show "\<forall>row \<in> set df. group_id row = None"
    proof
      fix row assume r: "row \<in> set df"
      show "group_id row = None"
      proof (cases "group_id row")
        case None then show ?thesis .
      next
        case (Some k)
        with r have "Some k \<in> set (map group_id df)" by (simp add: image_iff) (metis r)
        with e show ?thesis by blast
      qed
    qed
  next
    assume "\<forall>row \<in> set df. group_id row = None"
    then show "{x. Some x \<in> set (map group_id df)} = {}" by auto
  qed
  finally show ?thesis .
qed

lemma aggregate_table_total:
  "\<exists>tbl. aggregate_table cy now raw = Inr tbl
     \<and> map Group_ID (rows tbl) = map Some (sort (remdups (dropna (map group_id raw))))
     \<and> group_id_integer tbl = list_all (\<lambda>row. group_id row \<noteq> None) raw
     \<and> aggregated_columns tbl = (\<exists>row \<in> set raw. group_id row \<noteq> None)"
proof -
  define prepared where "prepared = map (\<lambda>r. projr (prepare_row cy now r)) raw"
  define agg where "agg = (\<lambda>(key :: int, group_df). bind_err (aggregate_sanctions_data group_df) (\<lambda>d. Inr (key, d)))"
  have p: "map_err (prepare_row cy now) raw = Inr prepared"
    unfolding prepared_def by (rule map_err_total) (rule prepare_row_total)
  have ids: "map group_id prepared = map group_id raw"
    unfolding prepared_def by (simp add: comp_def prepare_row_group_id)
  have agg_ok: "\<not> isl (agg x) \<and> fst (projr (agg x)) = fst x" if "x \<in> set (groupby prepared)" for x
  proof -
    obtain k g where x: "x = (k, g)" by (cases x)
    have "g \<noteq> []" using that groupby_nonempty unfolding x by blast
    then obtain d where "aggregate_sanctions_data g = Inr d"
      using aggregate_nonempty[of g] by (cases "aggregate_sanctions_data g") simp_all
    then show ?thesis unfolding x agg_def by (simp add: bind_err_def)
  qed
  have s: "map_err agg (groupby prepared) = Inr (map (\<lambda>x. projr (agg x)) (groupby prepared))"
    by (rule map_err_total) (simp add: agg_ok)
  have keys: "map fst (map (\<lambda>x. projr (agg x)) (groupby prepared)) = map fst (groupby prepared)"
    using agg_ok by simp
  have gid: "Group_ID (refine_columns e) = Some (fst e)" for e :: "int \<times> string option final_data"
    unfolding refine_columns_def by (cases e) simp
  have "(\<forall>row \<in> set prepared. group_id row = None) \<longleftrightarrow> (\<forall>g \<in> set (map group_id prepared). g = None)"
    by simp
  also have "\<dots> \<longleftrightarrow> (\<forall>g \<in> set (map group_id raw). g = None)" unfolding ids ..
  also have "\<dots> \<longleftrightarrow> (\<forall>row \<in> set raw. group_id row = None)" by simp
  finally have "groupby prepared = [] \<longleftrightarrow> (\<forall>row \<in> set raw. group_id row = None)"
    unfolding groupby_empty_iff .
  then have flag: "(groupby prepared \<noteq> []) = (\<exists>row \<in> set raw. group_id row \<noteq> None)" by simp
  have "aggregate_table cy now raw =
          Inr \<lparr>rows = map refine_columns (map (\<lambda>x. projr (agg x)) (groupby prepared)),
               group_id_integer = list_all (\<lambda>row. group_id row \<noteq> None) raw,
               aggregated_columns = (groupby prepared \<noteq> [])\<rparr>"
    unfolding aggregate_table_def p agg_def[symmetric] by (simp add: bind_err_def s)
  moreover have "map Group_ID (map refine_columns (map (\<lambda>x. projr (agg x)) (groupby prepared)))
                   = map Some (sort (remdups (dropna (map group_id raw))))"
  proof -
    have "map Group_ID (map refine_columns (map (\<lambda>x. projr (agg x)) (groupby prepared)))
            = map Some (map fst (map (\<lambda>x. projr (agg x)) (groupby prepared)))"
      by (simp add: comp_def gid)
    also have "\<dots> = map Some (sort (remdups (dropna (map group_id raw))))"
      unfolding keys groupby_keys ids ..
    finally show ?thesis .
  qed
  ultimately show ?thesis using flag by simp
qed

lemma map_rows_Group_ID:
  "(\<And>r. Group_ID (f r) = Group_ID r) \<Longrightarrow> map Group_ID (rows (map_rows f df)) = map Group_ID (rows df)"
  unfolding map_rows_def by (simp add: comp_def)

lemma map_columns_Group_ID: "Group_ID (map_columns f g r) = Group_ID r"
  unfolding map_columns_def by simp

lemma post_aggregation_Group_ID: "map Group_ID (rows (post_aggregation now df)) = map Group_ID (rows df)"
  unfolding post_aggregation_def standardize_countries_in_agg_col_def clean_all_whitespace_def
    convert_metadata_dates_def remove_lrm_def
  by (simp add: map_rows_Group_ID map_columns_Group_ID)

lemma post_aggregation_columns: "aggregated_columns (post_aggregation now df) = aggregated_columns df"
  unfolding post_aggregation_def standardize_countries_in_agg_col_def clean_all_whitespace_def
    convert_metadata_dates_def remove_lrm_def map_rows_def
  by simp

lemma sort_values_sorted:
  assumes "map Group_ID (rows df) = map Some ids" "sorted ids"
  shows "rows (sort_values df) = rows df"
proof -
  let ?f = "\<lambda>r :: 'a structured_row. case Group_ID r of None \<Rightarrow> (1 :: nat, 0 :: int) | Some k \<Rightarrow> (0, k)"
  have "map ?f (rows df) = map (\<lambda>g. case g of None \<Rightarrow> (1 :: nat, 0 :: int) | Some k \<Rightarrow> (0, k)) (map Group_ID (rows df))"
    by (simp add: comp_def)
  also have "\<dots> = map (\<lambda>k. (0, k)) ids" unfolding assms(1) by (simp add: comp_def)
  finally have m: "map ?f (rows df) = map (\<lambda>k. (0, k)) ids" .
  have "sorted (map (\<lambda>k. (0 :: nat, k)) ids)"
    using assms(2) by (induction ids) (auto simp: less_eq_prod_def)
  then have "sorted (map ?f (rows df))" unfolding m .
  then show ?thesis unfolding sort_values_def by (simp add: sort_key_id_if_sorted)
qed

lemma main_after_aggregation:
  assumes "aggregate_table cy now raw = Inr tbl"
  shows "main verbose cy now raw =
     bind_err (run_final_checks (post_aggregation now tbl) verbose)
       (\<lambda>is_ready. Inr (\<not> is_ready \<and> verbose, sort_values (post_aggregation now tbl)))"
  unfolding main_def assms by (simp add: bind_err_def Let_def)

lemma run_final_checks_columns:
  "aggregated_columns df \<Longrightarrow> run_final_checks df verbose = Inr (\<not> verbose \<or> fst (final_checks df))"
  unfolding run_final_checks_def by simp

lemma main_with_groups:
  assumes "\<exists>row \<in> set raw. group_id row \<noteq> None"
  shows "\<exists>tbl ready. aggregate_table cy now raw = Inr tbl
     \<and> map Group_ID (rows tbl) = map Some (sort (remdups (dropna (map group_id raw))))
     \<and> run_final_checks (post_aggregation now tbl) verbose = Inr ready
     \<and> main verbose cy now raw = Inr (verbose \<and> \<not> ready, sort_values (post_aggregation now tbl))"
proof -
  obtain tbl where t: "aggregate_table cy now raw = Inr tbl"
      "map Group_ID (rows tbl) = map Some (sort (remdups (dropna (map group_id raw))))"
      "aggregated_columns tbl = (\<exists>row \<in> set raw. group_id row \<noteq> None)"
    using aggregate_table_total by blast
  have c: "aggregated_columns (post_aggregation now tbl)"
    unfolding post_aggregation_columns t(3) using assms .
  define ready where "ready = (\<not> verbose \<or> fst (final_checks (post_aggregation now tbl)))"
  have r: "run_final_checks (post_aggregation now tbl) verbose = Inr ready"
    unfolding ready_def by (rule run_final_checks_columns[OF c])
  have "main verbose cy now raw = Inr (\<not> ready \<and> verbose, sort_values (post_aggregation now tbl))"
    unfolding main_after_aggregation[OF t(1)] r by (simp add: bind_err_def)
  also have "(\<not> ready \<and> verbose) = (verbose \<and> \<not> ready)" by blast
  finally have m: "main verbose cy now raw = Inr (verbose \<and> \<not> ready, sort_values (post_aggregation now tbl))" .
  from t(1) t(2) r m show ?thesis by (intro exI conjI)
qed

lemma main_without_groups:
  assumes "\<forall>row \<in> set raw. group_id row = None"
  shows "main True cy now raw = Inl KeyError"
proof -
  obtain tbl where t: "aggregate_table cy now raw = Inr tbl"
      "aggregated_columns tbl = (\<exists>row \<in> set raw. group_id row \<noteq> None)"
    using aggregate_table_total by blast
  have c: "\<not> aggregated_columns (post_aggregation now tbl)"
    unfolding post_aggregation_columns t(2) using assms by simp
  have r: "run_final_checks (post_aggregation now tbl) True = Inl KeyError"
    unfolding run_final_checks_def using c by simp
  show ?thesis unfolding main_after_aggregation[OF t(1)] r by (simp add: bind_err_def)
qed

lemma main_group_ids:
  assumes "\<exists>row \<in> set raw. group_id row \<noteq> None"
  shows "\<exists>warned tbl. main verbose cy now raw = Inr (warned, tbl)
     \<and> map Group_ID (rows tbl) = map Some (sort (remdups (dropna (map group_id raw))))"
proof -
  from main_with_groups[OF assms, of cy now verbose] obtain t ready where
    t: "map Group_ID (rows t) = map Some (sort (remdups (dropna (map group_id raw))))"
    and m: "main verbose cy now raw = Inr (verbose \<and> \<not> ready, sort_values (post_aggregation now t))"
    by (elim exE conjE)
  have p: "map Group_ID (rows (post_aggregation now t)) = map Some (sort (remdups (dropna (map group_id raw))))"
    unfolding post_aggregation_Group_ID t ..
  have "rows (sort_values (post_aggregation now t)) = rows (post_aggregation now t)"
    by (rule sort_values_sorted[OF p]) simp
  then have "map Group_ID (rows (sort_values (post_aggregation now t)))
      = map Some (sort (remdups (dropna (map group_id raw))))" using p by simp
  with m show ?thesis by (intro exI conjI)
qed

text \<open>
  Claim C2, as the code has it. For every input table in which some row has an entity
  identifier, and whose identifiers are at most \<open>2^53\<close> in absolute value (pandas then holds
  them exactly, as \<open>int64\<close> or, when a row lacks its identifier, as \<open>float64\<close>), \<open>main\<close>
  returns a table with exactly one row for each distinct identifier of the input: the number
  of rows is the number of distinct identifiers, the identifiers of the output rows are
  exactly those of the input, none is missing, no two rows share one, and the rows are in
  strictly ascending order of identifier. Rows of the input without an identifier belong to
  no group.
\<close>

theorem one_row_per_group_id:
  assumes "\<exists>row \<in> set uk_sanctions_raw. group_id row \<noteq> None"
    and "\<forall>row \<in> set uk_sanctions_raw. \<forall>key. group_id row = Some key \<longrightarrow> - (2 ^ 53) \<le> key \<and> key \<le> 2 ^ 53"
  shows "\<exists>warned tbl. main verbose current_year now uk_sanctions_raw = Inr (warned, tbl)
     \<and> length (rows tbl) = card {key. Some key \<in> set (map group_id uk_sanctions_raw)}
     \<and> set (map Group_ID (rows tbl)) = set (map group_id uk_sanctions_raw) - {None}
     \<and> distinct (map Group_ID (rows tbl))
     \<and> sorted_wrt (\<lambda>r s. the (Group_ID r) < the (Group_ID s)) (rows tbl)"
proof -
  define ids where "ids = sort (remdups (dropna (map group_id uk_sanctions_raw)))"
  obtain warned tbl where m: "main verbose current_year now uk_sanctions_raw = Inr (warned, tbl)"
    and g: "map Group_ID (rows tbl) = map Some ids"
    using main_group_ids[OF assms(1), of verbose current_year now] unfolding ids_def by blast
  have d: "distinct ids" and s: "sorted ids" unfolding ids_def by simp_all
  have st: "set ids = {key. Some key \<in> set (map group_id uk_sanctions_raw)}"
    unfolding ids_def by (simp add: set_dropna)
  have "length (rows tbl) = length (map Group_ID (rows tbl))" by simp
  also have "\<dots> = length ids" unfolding g by simp
  also have "\<dots> = card (set ids)" using d by (simp add: distinct_card)
  finally have l: "length (rows tbl) = card {key. Some key \<in> set (map group_id uk_sanctions_raw)}"
    unfolding st .
  have e: "set (map Group_ID (rows tbl)) = set (map group_id uk_sanctions_raw) - {None}"
  proof -
    have "set (map Group_ID (rows tbl)) = Some ` set ids" unfolding g by simp
    also have "\<dots> = set (map group_id uk_sanctions_raw) - {None}"
      unfolding st
    proof (rule set_eqI)
      fix x :: "int option"
      show "x \<in> Some ` {key. Some key \<in> set (map group_id uk_sanctions_raw)}
              \<longleftrightarrow> x \<in> set (map group_id uk_sanctions_raw) - {None}"
        by (cases x) (simp_all add: image_iff)
    qed
    finally show ?thesis .
  qed
  have di: "distinct (map Group_ID (rows tbl))" unfolding g using d by (simp add: distinct_map)
  have "map (\<lambda>r. the (Group_ID r)) (rows tbl) = map the (map Group_ID (rows tbl))" by (simp add: comp_def)
  also have "\<dots> = ids" unfolding g by (simp add: comp_def)
  finally have "sorted_wrt (<) (map (\<lambda>r. the (Group_ID r)) (rows tbl))"
    using d s by (simp add: strict_sorted_iff)
  then have so: "sorted_wrt (\<lambda>r s. the (Group_ID r) < the (Group_ID s)) (rows tbl)"
    by (simp add: sorted_wrt_map)
  from m l e di so show ?thesis by (intro exI conjI)
qed

text \<open>
  Four input rows with the identifiers 9, 7, none and 7 give two output rows, for 7 and 9.
\<close>

theorem one_row_per_group_id_witness:
  "\<exists>warned tbl.
      main True 2026 example_now
        [example_source_row (Some 9) ''C'', example_source_row (Some 7) ''A'',
         example_source_row None ''D'', example_source_row (Some 7) ''B''] = Inr (warned, tbl)
    \<and> length (rows tbl) = 2
    \<and> set (map Group_ID (rows tbl)) = {Some 7, Some 9}
    \<and> distinct (map Group_ID (rows tbl))
    \<and> sorted_wrt (\<lambda>r s. the (Group_ID r) < the (Group_ID s)) (rows tbl)"
proof -
  let ?raw = "[example_source_row (Some 9) ''C'', example_source_row (Some 7) ''A'',
               example_source_row None ''D'', example_source_row (Some 7) ''B'']"
  have h: "\<exists>row \<in> set ?raw. group_id row \<noteq> None" by (simp add: example_source_row_def)
  have b: "\<forall>row \<in> set ?raw. \<forall>key. group_id row = Some key \<longrightarrow> - (2 ^ 53) \<le> key \<and> key \<le> 2 ^ 53"
    by (simp add: example_source_row_def)
  have ids: "map group_id ?raw = [Some 9, Some 7, None, Some 7]" by (simp add: example_source_row_def)
  have k: "{key. Some key \<in> set [Some 9, Some 7, None, Some (7 :: int)]} = {7, 9}" by auto
  have c: "card {key. Some key \<in> set (map group_id ?raw)} = 2" unfolding ids k by simp
  have e: "set (map group_id ?raw) - {None} = {Some 7, Some 9}" unfolding ids by auto
  from one_row_per_group_id[OF h b, of True 2026 example_now] show ?thesis unfolding c e .
qed

text \<open>
  A table whose only row has no identifier has no group: the verbose run ends with
  \<open>KeyError\<close> in the final checks and returns no table at all.
\<close>

theorem no_group_id_counterexample:
  "main True 2026 example_now [example_source_row None ''A''] = Inl KeyError"
  by code_simp

section \<open>Properties of the quality gate\<close>

lemma final_checks_nulls: "critical_nulls (rows df) \<Longrightarrow> \<not> fst (final_checks df)"
  unfolding final_checks_def Let_def by simp

lemma final_checks_duplicates: "\<not> distinct (map Group_ID (rows df)) \<Longrightarrow> \<not> fst (final_checks df)"
  unfolding final_checks_def Let_def by simp

text \<open>
  Claim C9, as the code has it. On a table that has the aggregated columns, the quality gate
  run in verbose mode reports that the table is not ready whenever the entity identifier,
  the primary name, the group type or the regime is null in some row, and whenever two rows
  share an entity identifier. In quiet mode it runs no check and reports that the table is
  ready, whatever the table holds. On a table without the aggregated columns the gate run in
  verbose mode raises \<open>KeyError\<close>. For the pipeline this means: when some row of the input
  has an identifier, the gate only returns its verdict, \<open>main\<close> goes on to sort and return
  the table, and the verdict decides nothing but whether a warning is printed; when no row
  of the input has an identifier, the verbose run is ended by the \<open>KeyError\<close> of the gate and
  returns no table.
\<close>

theorem quality_gate_verbose:
  "(aggregated_columns df
      \<and> ((\<exists>r \<in> set (rows df). Group_ID r = None \<or> Primary_Name r = None \<or> Group_Type r = None \<or> Regime r = None)
         \<or> \<not> distinct (map Group_ID (rows df)))
      \<longrightarrow> run_final_checks df True = Inr False)
   \<and> run_final_checks df False = Inr True
   \<and> (\<not> aggregated_columns df \<longrightarrow> run_final_checks df True = Inl KeyError)
   \<and> ((\<exists>row \<in> set uk_sanctions_raw. group_id row \<noteq> None)
      \<longrightarrow> (\<exists>tbl ready. aggregate_table current_year now uk_sanctions_raw = Inr tbl
             \<and> run_final_checks (post_aggregation now tbl) verbose = Inr ready
             \<and> main verbose current_year now uk_sanctions_raw =
                 Inr (verbose \<and> \<not> ready, sort_values (post_aggregation now tbl))))
   \<and> ((\<forall>row \<in> set uk_sanctions_raw. group_id row = None)
      \<longrightarrow> main True current_year now uk_sanctions_raw = Inl KeyError)"
proof (intro conjI impI)
  assume h: "aggregated_columns df
      \<and> ((\<exists>r \<in> set (rows df). Group_ID r = None \<or> Primary_Name r = None \<or> Group_Type r = None \<or> Regime r = None)
         \<or> \<not> distinct (map Group_ID (rows df)))"
  then have c: "aggregated_columns df" by (rule conjunct1)
  from h have "critical_nulls (rows df) \<or> \<not> distinct (map Group_ID (rows df))"
    unfolding critical_nulls_def by (rule conjunct2)
  then have "\<not> fst (final_checks df)"
    using final_checks_nulls final_checks_duplicates by blast
  then show "run_final_checks df True = Inr False" unfolding run_final_checks_def using c by simp
next
  show "run_final_checks df False = Inr True" unfolding run_final_checks_def by simp
next
  assume "\<not> aggregated_columns df"
  then show "run_final_checks df True = Inl KeyError" unfolding run_final_checks_def by simp
next
  assume h: "\<exists>row \<in> set uk_sanctions_raw. group_id row \<noteq> None"
  from main_with_groups[OF h, of current_year now verbose] obtain tbl ready where
    "aggregate_table current_year now uk_sanctions_raw = Inr tbl"
    "run_final_checks (post_aggregation now tbl) verbose = Inr ready"
    "main verbose current_year now uk_sanctions_raw =
       Inr (verbose \<and> \<not> ready, sort_values (post_aggregation now tbl))"
    by (elim exE conjE)
  then show "\<exists>tbl ready. aggregate_table current_year now uk_sanctions_raw = Inr tbl
             \<and> run_final_checks (post_aggregation now tbl) verbose = Inr ready
             \<and> main verbose current_year now uk_sanctions_raw =
                 Inr (verbose \<and> \<not> ready, sort_values (post_aggregation now tbl))"
    by (intro exI conjI)
next
  assume "\<forall>row \<in> set uk_sanctions_raw. group_id row = None"
  then show "main True current_year now uk_sanctions_raw = Inl KeyError"
    by (rule main_without_groups)
qed

text \<open>
  In verbose mode a table with a null primary name is not ready, nor is a table with two
  rows for the identifier 7; a frame without the aggregated columns makes the gate raise;
  the table of an input with an identified row is returned together with the verdict; and
  the verbose run on an input without any identified row ends with \<open>KeyError\<close>.
\<close>

theorem quality_gate_verbose_witness:
  "run_final_checks \<lparr>rows = [example_structured_row (Some 7) None], group_id_integer = True,
                     aggregated_columns = True\<rparr> True = Inr False
   \<and> run_final_checks \<lparr>rows = [example_structured_row (Some 7) (Some ''A''),
                               example_structured_row (Some 7) (Some ''B'')],
                       group_id_integer = True, aggregated_columns = True\<rparr> True = Inr False
   \<and> run_final_checks \<lparr>rows = ([] :: timestamp option structured_row list), group_id_integer = True,
                       aggregated_columns = False\<rparr> True = Inl KeyError
   \<and> (\<exists>tbl ready. aggregate_table 2026 example_now [example_source_row (Some 7) ''A''] = Inr tbl
          \<and> run_final_checks (post_aggregation example_now tbl) True = Inr ready
          \<and> main True 2026 example_now [example_source_row (Some 7) ''A''] =
              Inr (True \<and> \<not> ready, sort_values (post_aggregation example_now tbl)))
   \<and> main True 2026 example_now [] = Inl KeyError"
proof -
  let ?a = "\<lparr>rows = [example_structured_row (Some 7) None], group_id_integer = True,
             aggregated_columns = True\<rparr>"
  let ?b = "\<lparr>rows = [example_structured_row (Some 7) (Some ''A''), example_structured_row (Some 7) (Some ''B'')],
             group_id_integer = True, aggregated_columns = True\<rparr>"
  let ?c = "\<lparr>rows = ([] :: timestamp option structured_row list), group_id_integer = True,
             aggregated_columns = False\<rparr>"
  let ?raw = "[example_source_row (Some 7) ''A'']"
  have ha: "aggregated_columns ?a
      \<and> ((\<exists>r \<in> set (rows ?a). Group_ID r = None \<or> Primary_Name r = None \<or> Group_Type r = None \<or> Regime r = None)
         \<or> \<not> distinct (map Group_ID (rows ?a)))"
    by (simp add: example_structured_row_def)
  have hb: "aggregated_columns ?b
      \<and> ((\<exists>r \<in> set (rows ?b). Group_ID r = None \<or> Primary_Name r = None \<or> Group_Type r = None \<or> Regime r = None)
         \<or> \<not> distinct (map Group_ID (rows ?b)))"
    by (simp add: example_structured_row_def)
  have hc: "\<not> aggregated_columns ?c" by simp
  have hr: "\<exists>row \<in> set ?raw. group_id row \<noteq> None" by (simp add: example_source_row_def)
  have hn: "\<forall>row \<in> set ([] :: source_row list). group_id row = None" by simp
  note t = quality_gate_verbose[where current_year = 2026 and now = example_now and verbose = True]
  from t[where df = ?a and uk_sanctions_raw = ?raw, THEN conjunct1, THEN mp, OF ha]
       t[where df = ?b and uk_sanctions_raw = ?raw, THEN conjunct1, THEN mp, OF hb]
       t[where df = ?c and uk_sanctions_raw = ?raw, THEN conjunct2, THEN conjunct2, THEN conjunct1, THEN mp, OF hc]
       t[where df = ?a and uk_sanctions_raw = ?raw, THEN conjunct2, THEN conjunct2, THEN conjunct2,
         THEN conjunct1, THEN mp, OF hr]
       t[where df = ?a and uk_sanctions_raw = "[]", THEN conjunct2, THEN conjunct2, THEN conjunct2,
         THEN conjunct2, THEN mp, OF hn]
  show ?thesis by (intro conjI)
qed

text \<open>
  In quiet mode the table with a null primary name is reported as ready; and the verbose run
  on two rows without an identifier is ended by the gate, which raises \<open>KeyError\<close>, so that no
  table is returned: the gate does abort the pipeline there.
\<close>

theorem quality_gate_quiet_counterexample:
  "Primary_Name (example_structured_row (Some 7) None) = None
   \<and> run_final_checks \<lparr>rows = [example_structured_row (Some 7) None], group_id_integer = True,
                       aggregated_columns = True\<rparr> False = Inr True
   \<and> main True 2026 example_now [example_source_row None ''A'', example_source_row None ''B''] = Inl KeyError"
proof -
  have a: "Primary_Name (example_structured_row (Some 7) None) = None"
    by (simp add: example_structured_row_def)
  have b: "run_final_checks \<lparr>rows = [example_structured_row (Some 7) None], group_id_integer = True,
                       aggregated_columns = True\<rparr> False = Inr True"
    by (simp add: run_final_checks_def)
  have c: "main True 2026 example_now [example_source_row None ''A'', example_source_row None ''B''] = Inl KeyError"
    by code_simp
  from a b c show ?thesis by (intro conjI)
qed

end
